theory Spec2Isabelle
  imports Complex_Main "HOL-Library.AList" "HOL-Library.Product_Lexorder"
begin

section \<open>Data model (etl\_platform/shared/models.py)\<close>

text \<open>
  Python \<open>str\<close> values are modelled as \<open>string\<close> (lists of 8-bit characters), so the
  development covers ASCII field names and type names.  The scoring functions are
  modelled in exact arithmetic: every constant of the source (0.3, 0.5, 0.8, 0.85, 0.9,
  0.95, 1.05, 1.2) is read as the decimal fraction it denotes.  The program computes in
  IEEE double precision, which can differ from the exact value in the last binary digit;
  where the program compares two computed scores with each other (\<open>generate_mappings\<close>)
  the score is therefore a parameter of the model and not computed by it.  Wall-clock
  fields (\<open>detected_at\<close>) and the message bus are outside the modelled state.
\<close>

record Field =
  name :: string
  data_type :: string
  nullable :: bool
  description :: "string option"

record Schema =
  schema_id :: string
  source_id :: string
  version :: int
  schema_fields :: "Field list"
  timestamp :: nat
  table_name :: "string option"

datatype MappingType = DIRECT | TRANSFORMED | DERIVED

record FieldMapping =
  source_field :: string
  target_field :: string
  transformation :: "string option"
  confidence :: real
  mapping_type :: MappingType

record SchemaChange =
  change_source_id :: string
  change_type :: string
  field_name :: string
  old_value :: "string option"
  new_value :: "string option"

section \<open>String primitives of the Python runtime\<close>

definition ascii_uppercase :: string where
  "ascii_uppercase = ''ABCDEFGHIJKLMNOPQRSTUVWXYZ''"

definition ascii_lowercase :: string where
  "ascii_lowercase = ''abcdefghijklmnopqrstuvwxyz''"

text \<open>\<open>str.lower()\<close> and \<open>str.upper()\<close> on ASCII text.\<close>

definition lower_char :: "char \<Rightarrow> char" where
  "lower_char c = (case map_of (zip ascii_uppercase ascii_lowercase) c of
                     None \<Rightarrow> c | Some d \<Rightarrow> d)"

definition upper_char :: "char \<Rightarrow> char" where
  "upper_char c = (case map_of (zip ascii_lowercase ascii_uppercase) c of
                     None \<Rightarrow> c | Some d \<Rightarrow> d)"

definition lower :: "string \<Rightarrow> string" where
  "lower s = map lower_char s"

definition upper :: "string \<Rightarrow> string" where
  "upper s = map upper_char s"

text \<open>\<open>s.replace(c, '')\<close> for a one-character pattern \<open>c\<close>.\<close>

definition remove_char :: "char \<Rightarrow> string \<Rightarrow> string" where
  "remove_char c s = filter (\<lambda>x. x \<noteq> c) s"

text \<open>The characters below 128 for which \<open>str.isspace()\<close> holds: 9-13, 28-31 and 32.\<close>

definition is_space :: "char \<Rightarrow> bool" where
  "is_space c = (let n = (of_char c :: nat) in (9 \<le> n \<and> n \<le> 13) \<or> (28 \<le> n \<and> n \<le> 32))"

definition strip :: "string \<Rightarrow> string" where
  "strip s = rev (dropWhile is_space (rev (dropWhile is_space s)))"

text \<open>
  \<open>re.sub(r'\([^)]*\)', '', s)\<close>: scanning from the left, an opening parenthesis that
  has a closing parenthesis somewhere after it is removed together with everything up to
  the first such closing parenthesis; scanning resumes behind it.  An opening parenthesis
  with no closing parenthesis after it is kept.
\<close>

function remove_parenthesized :: "string \<Rightarrow> string" where
  "remove_parenthesized [] = []"
| "remove_parenthesized (c # cs) =
     (if c = CHR ''('' \<and> CHR '')'' \<in> set cs
      then remove_parenthesized (tl (dropWhile (\<lambda>x. x \<noteq> CHR '')'') cs))
      else c # remove_parenthesized cs)"
  by pat_completeness auto
termination
proof (relation "measure length")
  show "wf (measure length)" by simp
next
  fix c :: char and cs :: string
  have "length (dropWhile (\<lambda>x. x \<noteq> CHR '')'') cs) \<le> length cs"
    by (rule length_dropWhile_le)
  then show "(tl (dropWhile (\<lambda>x. x \<noteq> CHR '')'') cs), c # cs) \<in> measure length"
    by simp
next
  fix c :: char and cs :: string
  show "(cs, c # cs) \<in> measure length" by simp
qed

text \<open>\<open>x in y\<close> for strings: \<open>x\<close> occurs in \<open>y\<close> as a contiguous run.\<close>

fun is_prefix :: "string \<Rightarrow> string \<Rightarrow> bool" where
  "is_prefix [] ys = True"
| "is_prefix (x # xs) [] = False"
| "is_prefix (x # xs) (y # ys) = (x = y \<and> is_prefix xs ys)"

fun str_contains :: "string \<Rightarrow> string \<Rightarrow> bool" where
  "str_contains x [] = (x = [])"
| "str_contains x (c # cs) = (is_prefix x (c # cs) \<or> str_contains x cs)"

section \<open>difflib.SequenceMatcher (Python standard library)\<close>

text \<open>
  \<open>_calculate_name_similarity\<close> calls \<open>difflib.SequenceMatcher(None, norm1, norm2).ratio()\<close>.
  The matcher is modelled after CPython's \<open>Lib/difflib.py\<close> for \<open>isjunk = None\<close> and
  \<open>autojunk = True\<close>: no element is junk, and in a second sequence of at least 200
  elements those occurring more than \<open>n // 100 + 1\<close> times are popular and left out of
  the index \<open>b2j\<close>.  A match is the triple \<open>(i, j, size)\<close>.
\<close>

type_synonym match = "nat \<times> nat \<times> nat"

text \<open>
  \<open>__chain_b\<close>: \<open>b2j\<close> maps an element to the increasing list of its positions in
  \<open>b\<close>; the entries of popular elements are deleted.
\<close>

definition popular :: "string \<Rightarrow> char \<Rightarrow> bool" where
  "popular b x = (length b \<ge> 200 \<and> length (filter (\<lambda>y. y = x) b) > length b div 100 + 1)"

definition b2j :: "string \<Rightarrow> char \<Rightarrow> nat list" where
  "b2j b x = (if popular b x then [] else filter (\<lambda>j. b ! j = x) [0..<length b])"

text \<open>
  \<open>j2len.get(j-1, 0)\<close> on a dictionary keyed by positions: the key \<open>-1\<close> that arises
  for \<open>j = 0\<close> never exists.
\<close>

definition j2lenget :: "(nat \<rightharpoonup> nat) \<Rightarrow> nat \<Rightarrow> nat" where
  "j2lenget j2len j = (if j = 0 then 0 else case j2len (j - 1) of None \<Rightarrow> 0 | Some k \<Rightarrow> k)"

text \<open>
  The inner loop of \<open>find_longest_match\<close> over the positions \<open>j\<close> of \<open>a[i]\<close> in
  \<open>b\<close>: positions below \<open>blo\<close> are skipped (\<open>continue\<close>), the first position at or
  above \<open>bhi\<close> ends the loop (\<open>break\<close>).  Python's \<open>i-k+1\<close> is written
  \<open>i + 1 - k\<close>; \<open>k\<close> never exceeds \<open>i + 1 - alo\<close> (lemma \<open>scan_row_ok\<close> below), so
  the subtraction on naturals does not truncate.
\<close>

fun scan_row :: "(nat \<rightharpoonup> nat) \<Rightarrow> nat \<Rightarrow> nat \<Rightarrow> nat \<Rightarrow> nat list
                   \<Rightarrow> (nat \<rightharpoonup> nat) \<times> match \<Rightarrow> (nat \<rightharpoonup> nat) \<times> match" where
  "scan_row j2len i blo bhi [] st = st"
| "scan_row j2len i blo bhi (j # js) (newj2len, besti, bestj, bestsize) =
     (if j < blo then scan_row j2len i blo bhi js (newj2len, besti, bestj, bestsize)
      else if j \<ge> bhi then (newj2len, besti, bestj, bestsize)
      else (let k = j2lenget j2len j + 1
            in if k > bestsize
               then scan_row j2len i blo bhi js (newj2len(j \<mapsto> k), i + 1 - k, j + 1 - k, k)
               else scan_row j2len i blo bhi js (newj2len(j \<mapsto> k), besti, bestj, bestsize)))"

text \<open>The outer loop \<open>for i in range(alo, ahi)\<close>, which hands \<open>newj2len\<close> on as \<open>j2len\<close>.\<close>

fun scan_rows :: "string \<Rightarrow> string \<Rightarrow> nat \<Rightarrow> nat \<Rightarrow> nat list
                    \<Rightarrow> (nat \<rightharpoonup> nat) \<times> match \<Rightarrow> match" where
  "scan_rows a b blo bhi [] (j2len, best) = best"
| "scan_rows a b blo bhi (i # rest) (j2len, best) =
     scan_rows a b blo bhi rest (scan_row j2len i blo bhi (b2j b (a ! i)) (Map.empty, best))"

text \<open>
  The two \<open>while\<close> loops that extend the best block by equal elements on each end.  The
  two loops after them extend by junk elements only and never run, the junk set being
  empty.
\<close>

function extend_left :: "string \<Rightarrow> string \<Rightarrow> nat \<Rightarrow> nat \<Rightarrow> match \<Rightarrow> match" where
  "extend_left a b alo blo (besti, bestj, bestsize) =
     (if besti > alo \<and> bestj > blo \<and> a ! (besti - 1) = b ! (bestj - 1)
      then extend_left a b alo blo (besti - 1, bestj - 1, bestsize + 1)
      else (besti, bestj, bestsize))"
  by pat_completeness auto
termination
  by (relation "measure (\<lambda>(a, b, alo, blo, besti, bestj, bestsize). besti)") auto

function extend_right :: "string \<Rightarrow> string \<Rightarrow> nat \<Rightarrow> nat \<Rightarrow> match \<Rightarrow> match" where
  "extend_right a b ahi bhi (besti, bestj, bestsize) =
     (if besti + bestsize < ahi \<and> bestj + bestsize < bhi
         \<and> a ! (besti + bestsize) = b ! (bestj + bestsize)
      then extend_right a b ahi bhi (besti, bestj, bestsize + 1)
      else (besti, bestj, bestsize))"
  by pat_completeness auto
termination
  by (relation "measure (\<lambda>(a, b, ahi, bhi, besti, bestj, bestsize). ahi - (besti + bestsize))") auto

declare extend_left.simps [simp del] extend_right.simps [simp del]

definition find_longest_match :: "string \<Rightarrow> string \<Rightarrow> nat \<Rightarrow> nat \<Rightarrow> nat \<Rightarrow> nat \<Rightarrow> match" where
  "find_longest_match a b alo ahi blo bhi =
     extend_right a b ahi bhi
       (extend_left a b alo blo
          (scan_rows a b blo bhi [alo..<ahi] (Map.empty, (alo, blo, 0))))"

subsection \<open>A non-empty longest match lies inside the searched ranges\<close>

definition best_ok :: "nat \<Rightarrow> nat \<Rightarrow> nat \<Rightarrow> nat \<Rightarrow> match \<Rightarrow> bool" where
  "best_ok alo ahi blo bhi m =
     (case m of (besti, bestj, bestsize) \<Rightarrow>
        alo \<le> besti \<and> blo \<le> bestj \<and>
        (if bestsize = 0 then besti = alo \<and> bestj = blo
         else besti + bestsize \<le> ahi \<and> bestj + bestsize \<le> bhi))"

definition j2len_ok :: "nat \<Rightarrow> nat \<Rightarrow> (nat \<rightharpoonup> nat) \<Rightarrow> bool" where
  "j2len_ok n blo m = (\<forall>j k. m j = Some k \<longrightarrow> k \<le> n \<and> k \<le> j + 1 - blo \<and> blo \<le> j)"

lemma j2lenget_bound:
  assumes "j2len_ok n blo j2len" and "blo \<le> j"
  shows "j2lenget j2len j + 1 \<le> n + 1 \<and> j2lenget j2len j + 1 \<le> j + 1 - blo"
proof (cases "j = 0")
  case True
  then show ?thesis using assms by (simp add: j2lenget_def)
next
  case False
  show ?thesis
  proof (cases "j2len (j - 1)")
    case None
    then show ?thesis using False assms by (simp add: j2lenget_def)
  next
    case (Some k')
    then have "k' \<le> n \<and> k' \<le> (j - 1) + 1 - blo \<and> blo \<le> j - 1"
      using assms(1) unfolding j2len_ok_def by blast
    then show ?thesis using False Some unfolding j2lenget_def by (simp, arith)
  qed
qed

lemma scan_row_ok:
  assumes "j2len_ok (i - alo) blo j2len" and "alo \<le> i" and "i < ahi"
  shows "j2len_ok (i + 1 - alo) blo newj2len \<Longrightarrow> best_ok alo ahi blo bhi best \<Longrightarrow>
         scan_row j2len i blo bhi js (newj2len, best) = (m', best') \<Longrightarrow>
         j2len_ok (i + 1 - alo) blo m' \<and> best_ok alo ahi blo bhi best'"
proof (induction js arbitrary: newj2len best)
  case Nil
  then show ?case by simp
next
  case (Cons j js)
  obtain besti bestj bestsize where best: "best = (besti, bestj, bestsize)"
    by (cases best) auto
  show ?case
  proof (cases "j < blo")
    case True
    then show ?thesis using Cons best by simp
  next
    case lo: False
    show ?thesis
    proof (cases "bhi \<le> j")
      case True
      then show ?thesis using Cons.prems lo best by simp
    next
      case hi: False
      define k where "k = j2lenget j2len j + 1"
      have kb: "k \<le> i - alo + 1 \<and> k \<le> j + 1 - blo"
        using j2lenget_bound[OF assms(1), of j] lo unfolding k_def by simp
      have k1: "1 \<le> k" unfolding k_def by simp
      have new_ok: "j2len_ok (i + 1 - alo) blo (newj2len(j \<mapsto> k))"
        using Cons.prems(1) kb lo assms(2) unfolding j2len_ok_def by auto
      show ?thesis
      proof (cases "bestsize < k")
        case True
        have "best_ok alo ahi blo bhi (i + 1 - k, j + 1 - k, k)"
          using kb k1 hi lo assms(2,3) unfolding best_ok_def by auto
        moreover have "scan_row j2len i blo bhi js (newj2len(j \<mapsto> k), i + 1 - k, j + 1 - k, k) = (m', best')"
          using Cons.prems(3) best lo hi True unfolding k_def by (simp add: Let_def)
        ultimately show ?thesis using Cons.IH new_ok by blast
      next
        case False
        have "scan_row j2len i blo bhi js (newj2len(j \<mapsto> k), best) = (m', best')"
          using Cons.prems(3) best lo hi False unfolding k_def by (simp add: Let_def)
        then show ?thesis using Cons.IH new_ok Cons.prems(2) by blast
      qed
    qed
  qed
qed

lemma scan_rows_ok:
  "alo \<le> i0 \<Longrightarrow> j2len_ok (i0 - alo) blo j2len \<Longrightarrow> best_ok alo ahi blo bhi best \<Longrightarrow>
   best_ok alo ahi blo bhi (scan_rows a b blo bhi [i0..<ahi] (j2len, best))"
proof (induction "ahi - i0" arbitrary: i0 j2len best)
  case 0
  then show ?case by simp
next
  case (Suc n)
  then have lt: "i0 < ahi" by simp
  obtain m' best' where row:
    "scan_row j2len i0 blo bhi (b2j b (a ! i0)) (Map.empty, best) = (m', best')"
    by (cases "scan_row j2len i0 blo bhi (b2j b (a ! i0)) (Map.empty, best)") auto
  have "j2len_ok (i0 + 1 - alo) blo Map.empty" by (simp add: j2len_ok_def)
  then have ok: "j2len_ok (i0 + 1 - alo) blo m' \<and> best_ok alo ahi blo bhi best'"
    using scan_row_ok[OF Suc.prems(2) Suc.prems(1) lt _ Suc.prems(3) row] by simp
  have "best_ok alo ahi blo bhi (scan_rows a b blo bhi [Suc i0..<ahi] (m', best'))"
  proof (rule Suc.hyps(1))
    show "n = ahi - Suc i0" using Suc.hyps(2) by simp
    show "alo \<le> Suc i0" using Suc.prems(1) by simp
    show "j2len_ok (Suc i0 - alo) blo m'" using ok by simp
    show "best_ok alo ahi blo bhi best'" using ok by simp
  qed
  then show ?case using lt row by (simp add: upt_conv_Cons)
qed

lemma extend_left_ok:
  "best_ok alo ahi blo bhi m \<Longrightarrow> best_ok alo ahi blo bhi (extend_left a b alo blo m)"
proof (induction a b alo blo m rule: extend_left.induct)
  case (1 a b alo blo besti bestj bestsize)
  show ?case
  proof (cases "besti > alo \<and> bestj > blo \<and> a ! (besti - 1) = b ! (bestj - 1)")
    case True
    then have "best_ok alo ahi blo bhi (besti - 1, bestj - 1, bestsize + 1)"
      using "1.prems" unfolding best_ok_def by (auto split: if_splits)
    then show ?thesis using "1.IH" True by (subst extend_left.simps) simp
  next
    case False
    then show ?thesis using "1.prems" by (subst extend_left.simps) auto
  qed
qed

definition match_ok :: "nat \<Rightarrow> nat \<Rightarrow> nat \<Rightarrow> nat \<Rightarrow> match \<Rightarrow> bool" where
  "match_ok alo ahi blo bhi m =
     (case m of (i, j, k) \<Rightarrow>
        alo \<le> i \<and> blo \<le> j \<and> (k = 0 \<or> (i + k \<le> ahi \<and> j + k \<le> bhi)))"

lemma extend_right_ok:
  "match_ok alo ahi blo bhi m \<Longrightarrow> match_ok alo ahi blo bhi (extend_right a b ahi bhi m)"
proof (induction a b ahi bhi m rule: extend_right.induct)
  case (1 a b ahi bhi besti bestj bestsize)
  show ?case
  proof (cases "besti + bestsize < ahi \<and> bestj + bestsize < bhi
         \<and> a ! (besti + bestsize) = b ! (bestj + bestsize)")
    case True
    then have "match_ok alo ahi blo bhi (besti, bestj, bestsize + 1)"
      using "1.prems" unfolding match_ok_def by auto
    then show ?thesis using "1.IH" True by (subst extend_right.simps) simp
  next
    case False
    then show ?thesis using "1.prems" by (subst extend_right.simps) auto
  qed
qed

lemma find_longest_match_ok:
  "match_ok alo ahi blo bhi (find_longest_match a b alo ahi blo bhi)"
proof -
  have "best_ok alo ahi blo bhi (alo, blo, 0)" by (simp add: best_ok_def)
  moreover have "j2len_ok (alo - alo) blo Map.empty" by (simp add: j2len_ok_def)
  ultimately have "best_ok alo ahi blo bhi (scan_rows a b blo bhi [alo..<ahi] (Map.empty, (alo, blo, 0)))"
    using scan_rows_ok[of alo alo blo Map.empty ahi bhi "(alo, blo, 0)" a b] by simp
  then have "best_ok alo ahi blo bhi
      (extend_left a b alo blo (scan_rows a b blo bhi [alo..<ahi] (Map.empty, (alo, blo, 0))))"
    by (rule extend_left_ok)
  then have "match_ok alo ahi blo bhi
      (extend_left a b alo blo (scan_rows a b blo bhi [alo..<ahi] (Map.empty, (alo, blo, 0))))"
    unfolding best_ok_def match_ok_def by (auto split: prod.splits if_splits)
  then show ?thesis unfolding find_longest_match_def by (rule extend_right_ok)
qed

lemma find_longest_match_bounds:
  assumes "find_longest_match a b alo ahi blo bhi = (i, j, k)" and "k \<noteq> 0"
  shows "alo \<le> i \<and> i + k \<le> ahi \<and> blo \<le> j \<and> j + k \<le> bhi"
  using find_longest_match_ok[of alo ahi blo bhi a b] assms by (simp add: match_ok_def)


text \<open>The work list of \<open>get_matching_blocks\<close>; its head is the end of the Python list.\<close>

definition queue_weight :: "(nat \<times> nat \<times> nat \<times> nat) list \<Rightarrow> nat" where
  "queue_weight queue = sum_list (map (\<lambda>(alo, ahi, blo, bhi). 2 * (ahi - alo) + 1) queue)"

function matching_blocks_loop ::
  "string \<Rightarrow> string \<Rightarrow> (nat \<times> nat \<times> nat \<times> nat) list \<Rightarrow> match list \<Rightarrow> match list" where
  "matching_blocks_loop a b [] matching_blocks = matching_blocks"
| "matching_blocks_loop a b ((alo, ahi, blo, bhi) # queue) matching_blocks =
     (case find_longest_match a b alo ahi blo bhi of (i, j, k) \<Rightarrow>
        if k \<noteq> 0
        then matching_blocks_loop a b
               ((if i + k < ahi \<and> j + k < bhi then [(i + k, ahi, j + k, bhi)] else [])
                @ (if alo < i \<and> blo < j then [(alo, i, blo, j)] else []) @ queue)
               (matching_blocks @ [(i, j, k)])
        else matching_blocks_loop a b queue matching_blocks)"
  by pat_completeness auto
termination
proof (relation "measure (\<lambda>(a, b, queue, matching_blocks). queue_weight queue)", goal_cases)
  case 1
  show ?case by simp
next
  case (2 a b alo ahi blo bhi queue matching_blocks i y j k)
  then have "find_longest_match a b alo ahi blo bhi = (i, j, k)" by simp
  then have "alo \<le> i \<and> i + k \<le> ahi" using find_longest_match_bounds 2 by blast
  then show ?case using 2 by (auto simp: queue_weight_def)
next
  case 3
  then show ?case by (simp add: queue_weight_def)
qed

declare matching_blocks_loop.simps [simp del]

text \<open>
  The rest of \<open>get_matching_blocks\<close>: the blocks are sorted, adjacent blocks are merged,
  and the sentinel \<open>(la, lb, 0)\<close> is appended; \<open>ratio\<close> sums the sizes.
\<close>

fun collapse_adjacent :: "match \<Rightarrow> match list \<Rightarrow> match list" where
  "collapse_adjacent (i1, j1, k1) [] = (if k1 \<noteq> 0 then [(i1, j1, k1)] else [])"
| "collapse_adjacent (i1, j1, k1) ((i2, j2, k2) # rest) =
     (if i1 + k1 = i2 \<and> j1 + k1 = j2 then collapse_adjacent (i1, j1, k1 + k2) rest
      else (if k1 \<noteq> 0 then [(i1, j1, k1)] else []) @ collapse_adjacent (i2, j2, k2) rest)"

definition get_matching_blocks :: "string \<Rightarrow> string \<Rightarrow> match list" where
  "get_matching_blocks a b =
     (let la = length a; lb = length b;
          matching_blocks = sort (matching_blocks_loop a b [(0, la, 0, lb)] [])
      in collapse_adjacent (0, 0, 0) matching_blocks @ [(la, lb, 0)])"

definition calculate_ratio :: "nat \<Rightarrow> nat \<Rightarrow> real" where
  "calculate_ratio matches len = (if len \<noteq> 0 then 2 * real matches / real len else 1)"

definition ratio :: "string \<Rightarrow> string \<Rightarrow> real" where
  "ratio a b = calculate_ratio (sum_list (map (\<lambda>(i, j, k). k) (get_matching_blocks a b)))
                               (length a + length b)"


subsection \<open>The ratio lies in [0,1]\<close>

definition total_size :: "match list \<Rightarrow> nat" where
  "total_size ms = sum_list (map (\<lambda>(i, j, k). k) ms)"

definition queue_room :: "(nat \<times> nat \<times> nat \<times> nat) list \<Rightarrow> nat" where
  "queue_room queue = sum_list (map (\<lambda>(alo, ahi, blo, bhi). min (ahi - alo) (bhi - blo)) queue)"

lemma total_size_append: "total_size (xs @ ys) = total_size xs + total_size ys"
  by (simp add: total_size_def)

lemma matching_blocks_loop_room:
  "total_size (matching_blocks_loop a b queue acc) \<le> total_size acc + queue_room queue"
proof (induction a b queue acc rule: matching_blocks_loop.induct)
  case (1 a b matching_blocks)
  show ?case by (simp add: matching_blocks_loop.simps queue_room_def)
next
  case (2 a b alo ahi blo bhi queue matching_blocks)
  obtain i j k where flm: "find_longest_match a b alo ahi blo bhi = (i, j, k)"
    by (cases "find_longest_match a b alo ahi blo bhi") auto
  show ?case
  proof (cases "k = 0")
    case True
    have "total_size (matching_blocks_loop a b queue matching_blocks)
            \<le> total_size matching_blocks + queue_room queue"
      using "2.IH"(2)[of i "(j, k)" j k] flm True by simp
    then show ?thesis using flm True
      by (simp add: matching_blocks_loop.simps queue_room_def)
  next
    case False
    let ?q = "(if i + k < ahi \<and> j + k < bhi then [(i + k, ahi, j + k, bhi)] else [])
                @ (if alo < i \<and> blo < j then [(alo, i, blo, j)] else []) @ queue"
    have bounds: "alo \<le> i \<and> i + k \<le> ahi \<and> blo \<le> j \<and> j + k \<le> bhi"
      using find_longest_match_bounds[OF flm False] .
    have ih: "total_size (matching_blocks_loop a b ?q (matching_blocks @ [(i, j, k)]))
            \<le> total_size (matching_blocks @ [(i, j, k)]) + queue_room ?q"
      using "2.IH"(1)[of i "(j, k)" j k] flm False by simp
    have room: "k + queue_room ?q \<le> queue_room ((alo, ahi, blo, bhi) # queue)"
      using bounds False by (auto simp: queue_room_def)
    have "total_size (matching_blocks @ [(i, j, k)]) = total_size matching_blocks + k"
      by (simp add: total_size_def)
    then have "total_size (matching_blocks_loop a b ?q (matching_blocks @ [(i, j, k)]))
            \<le> total_size matching_blocks + queue_room ((alo, ahi, blo, bhi) # queue)"
      using ih room by linarith
    then show ?thesis using flm False
      by (simp add: matching_blocks_loop.simps)
  qed
qed

lemma total_size_insort: "total_size (insort x xs) = total_size [x] + total_size xs"
  by (induction xs) (auto simp: total_size_def)

lemma total_size_sort: "total_size (sort xs) = total_size xs"
  by (induction xs) (auto simp: total_size_insort, simp add: total_size_def)

lemma total_size_collapse:
  "total_size (collapse_adjacent m xs) = total_size [m] + total_size xs"
  by (induction m xs rule: collapse_adjacent.induct) (auto simp: total_size_def)

lemma total_size_get_matching_blocks:
  "total_size (get_matching_blocks a b) \<le> min (length a) (length b)"
proof -
  have "total_size (matching_blocks_loop a b [(0, length a, 0, length b)] [])
          \<le> total_size [] + queue_room [(0, length a, 0, length b)]"
    by (rule matching_blocks_loop_room)
  then show ?thesis
    by (simp add: get_matching_blocks_def Let_def total_size_append total_size_collapse
        total_size_sort, simp add: total_size_def queue_room_def)
qed

lemma ratio_range: "0 \<le> ratio a b \<and> ratio a b \<le> 1"
proof -
  have "total_size (get_matching_blocks a b) \<le> min (length a) (length b)"
    by (rule total_size_get_matching_blocks)
  then have "2 * total_size (get_matching_blocks a b) \<le> length a + length b" by simp
  then have "2 * real (total_size (get_matching_blocks a b)) \<le> real (length a + length b)"
    by (metis of_nat_le_iff of_nat_mult of_nat_numeral)
  then show ?thesis
    unfolding ratio_def calculate_ratio_def total_size_def[symmetric]
    by (simp add: divide_le_eq)
qed


section \<open>Type normalisation and compatibility (schema\_mapping\_agent.py)\<close>

definition TYPE_COMPATIBILITY :: "(string \<times> string list) list" where
  "TYPE_COMPATIBILITY = [
    (''VARCHAR'', [''TEXT'', ''CHAR'', ''STRING'', ''VARCHAR'']),
    (''TEXT'', [''VARCHAR'', ''CHAR'', ''STRING'', ''TEXT'']),
    (''CHAR'', [''VARCHAR'', ''TEXT'', ''STRING'', ''CHAR'']),
    (''STRING'', [''VARCHAR'', ''TEXT'', ''CHAR'', ''STRING'']),
    (''INTEGER'', [''BIGINT'', ''SMALLINT'', ''INT'', ''INTEGER'', ''NUMERIC'', ''DECIMAL'']),
    (''BIGINT'', [''INTEGER'', ''SMALLINT'', ''INT'', ''BIGINT'', ''NUMERIC'', ''DECIMAL'']),
    (''SMALLINT'', [''INTEGER'', ''BIGINT'', ''INT'', ''SMALLINT'', ''NUMERIC'', ''DECIMAL'']),
    (''INT'', [''INTEGER'', ''BIGINT'', ''SMALLINT'', ''INT'', ''NUMERIC'', ''DECIMAL'']),
    (''NUMERIC'', [''INTEGER'', ''BIGINT'', ''DECIMAL'', ''FLOAT'', ''DOUBLE'', ''NUMERIC'']),
    (''DECIMAL'', [''INTEGER'', ''BIGINT'', ''NUMERIC'', ''FLOAT'', ''DOUBLE'', ''DECIMAL'']),
    (''FLOAT'', [''DOUBLE'', ''NUMERIC'', ''DECIMAL'', ''FLOAT'']),
    (''DOUBLE'', [''FLOAT'', ''NUMERIC'', ''DECIMAL'', ''DOUBLE'']),
    (''DATE'', [''TIMESTAMP'', ''DATETIME'', ''DATE'']),
    (''TIMESTAMP'', [''DATETIME'', ''DATE'', ''TIMESTAMP'']),
    (''DATETIME'', [''TIMESTAMP'', ''DATE'', ''DATETIME'']),
    (''TIME'', [''TIME'']),
    (''BOOLEAN'', [''BOOL'', ''BIT'', ''BOOLEAN'']),
    (''BOOL'', [''BOOLEAN'', ''BIT'', ''BOOL'']),
    (''BLOB'', [''BINARY'', ''VARBINARY'', ''BLOB'']),
    (''BINARY'', [''BLOB'', ''VARBINARY'', ''BINARY''])]"

definition normalize_type :: "string \<Rightarrow> string" where
  "normalize_type dt = strip (remove_parenthesized (upper dt))"

definition check_type_compatibility :: "string \<Rightarrow> string \<Rightarrow> bool" where
  "check_type_compatibility source_type target_type =
     (let source_normalized = normalize_type source_type;
          target_normalized = normalize_type target_type
      in if source_normalized = target_normalized then True
         else (case map_of TYPE_COMPATIBILITY source_normalized of
                 Some row \<Rightarrow> target_normalized \<in> set row
               | None \<Rightarrow> False))"

definition are_types_identical :: "string \<Rightarrow> string \<Rightarrow> bool" where
  "are_types_identical source_type target_type =
     (normalize_type source_type = normalize_type target_type)"

definition generate_type_conversion :: "string \<Rightarrow> string \<Rightarrow> string" where
  "generate_type_conversion source_type target_type =
     (let target_norm = normalize_type target_type
      in if target_norm \<in> set [''VARCHAR'', ''TEXT'', ''CHAR'', ''STRING'']
           then ''CAST({field} AS VARCHAR)''
         else if target_norm \<in> set [''INTEGER'', ''INT'', ''BIGINT'', ''SMALLINT'']
           then ''CAST({field} AS INTEGER)''
         else if target_norm \<in> set [''NUMERIC'', ''DECIMAL'']
           then ''CAST({field} AS NUMERIC)''
         else if target_norm \<in> set [''FLOAT'', ''DOUBLE'']
           then ''CAST({field} AS FLOAT)''
         else if target_norm \<in> set [''DATE'', ''TIMESTAMP'', ''DATETIME'']
           then ''CAST({field} AS TIMESTAMP)''
         else if target_norm \<in> set [''BOOLEAN'', ''BOOL'']
           then ''CAST({field} AS BOOLEAN)''
         else ''CAST({field} AS '' @ target_norm @ '')'')"

section \<open>Confidence (SchemaMappingAgent.\_calculate\_confidence)\<close>

text \<open>
  The private methods of the source lose their leading underscore here:
  \<open>calculate_confidence\<close> is \<open>_calculate_confidence\<close> (the public wrapper of the same
  name but for the underscore, which rescales the name similarity by the mapping type, is
  not part of this development).  The source updates one local variable through five
  consecutive \<open>if\<close> statements.
\<close>

definition calculate_confidence :: "real \<Rightarrow> bool \<Rightarrow> Field \<Rightarrow> Field \<Rightarrow> real" where
  "calculate_confidence name_similarity type_compatible source_fld target_fld =
     (let c0 = name_similarity;
          c1 = (if \<not> type_compatible then c0 * 0.3 else c0);
          c2 = (if are_types_identical (data_type source_fld) (data_type target_fld)
                then min 1 (c1 * 1.2) else c1);
          c3 = (if nullable source_fld = nullable target_fld then min 1 (c2 * 1.05) else c2);
          c4 = (if \<not> nullable source_fld \<and> nullable target_fld then c3 * 0.95 else c3);
          c5 = (if nullable source_fld \<and> \<not> nullable target_fld then c4 * 0.85 else c4)
      in min 1 (max 0 c5))"


section \<open>Name similarity (SchemaMappingAgent.\_calculate\_name\_similarity)\<close>

definition common_abbreviations :: "(string \<times> string) list" where
  "common_abbreviations = [
     (''id'', ''identifier''), (''num'', ''number''), (''qty'', ''quantity''),
     (''amt'', ''amount''), (''desc'', ''description''), (''addr'', ''address''),
     (''tel'', ''telephone''), (''email'', ''emailaddress'')]"

text \<open>\<open>name.lower().replace('_', '').replace('-', '')\<close>\<close>

definition normalize_name :: "string \<Rightarrow> string" where
  "normalize_name n = remove_char (CHR ''-'') (remove_char (CHR ''_'') (lower n))"

definition calculate_name_similarity :: "string \<Rightarrow> string \<Rightarrow> real" where
  "calculate_name_similarity name1 name2 =
     (let norm1 = normalize_name name1;
          norm2 = normalize_name name2
      in if norm1 = norm2 then 1
         else (let similarity = ratio norm1 norm2;
                   similarity = (if str_contains norm1 norm2 \<or> str_contains norm2 norm1
                                 then max similarity 0.8 else similarity)
               in foldl (\<lambda>similarity (abbr, full).
                           if (norm1 = abbr \<and> norm2 = full) \<or> (norm1 = full \<and> norm2 = abbr)
                           then max similarity 0.9 else similarity)
                        similarity common_abbreviations))"

section \<open>Mapping generation (SchemaMappingAgent.generate\_mappings)\<close>

text \<open>
  The three scoring calls made for a candidate pair, and the construction of the
  \<open>FieldMapping\<close> for it (mapping type, transformation); both recur verbatim in
  \<open>generate_mappings\<close> and in \<open>update_mappings\<close>.

  \<open>field_confidence\<close> evaluates the scoring calls in exact arithmetic.  The program
  evaluates them in IEEE double precision, and the two can differ in the last binary
  digit: for the source field \<open>cust_id: INTEGER\<close> or \<open>id: BIGINT\<close> and the target field
  \<open>user_id: INTEGER\<close> the exact value is 21/25 both times, while the program obtains the
  doubles 0.84 and 0.8400000000000001.  The model therefore relies on
  \<open>field_confidence\<close> only where a score is compared with a fixed threshold
  (\<open>update_mappings\<close>); \<open>generate_mappings\<close>, which compares scores with each other,
  takes its score as a parameter.
\<close>

definition field_confidence :: "Field \<Rightarrow> Field \<Rightarrow> real" where
  "field_confidence source_fld target_fld =
     (let name_similarity = calculate_name_similarity (name source_fld) (name target_fld);
          type_compatible = check_type_compatibility (data_type source_fld) (data_type target_fld)
      in calculate_confidence name_similarity type_compatible source_fld target_fld)"

definition make_mapping :: "Field \<Rightarrow> Field \<Rightarrow> real \<Rightarrow> FieldMapping" where
  "make_mapping source_fld target_fld conf =
     (if \<not> are_types_identical (data_type source_fld) (data_type target_fld)
      then \<lparr>source_field = name source_fld, target_field = name target_fld,
            transformation =
              Some (generate_type_conversion (data_type source_fld) (data_type target_fld)),
            confidence = conf, mapping_type = TRANSFORMED\<rparr>
      else \<lparr>source_field = name source_fld, target_field = name target_fld,
            transformation = None, confidence = conf, mapping_type = DIRECT\<rparr>)"

text \<open>
  \<open>generate_mappings\<close> compares the scores of the candidates with each other, so its
  model does not compute them: it takes the score as the parameter \<open>score\<close>, where
  \<open>score source_fld target_fld\<close> stands for the double that the three scoring calls of the
  source (\<open>_calculate_name_similarity\<close>, \<open>_check_type_compatibility\<close>,
  \<open>_calculate_confidence\<close>) return for the pair, read as the real number it denotes.
  The calls depend on nothing but the two fields, the value is never NaN, and doubles
  compare as the reals they denote.  The literal \<open>0.3\<close> of the acceptance test denotes
  the double just below 3/10; no double lies between the two, so a double exceeds the
  one exactly when it exceeds the other (lemma \<open>acceptance_threshold_on_doubles\<close>).

  The inner loop over the source fields; the state is \<open>(best_mapping, best_confidence)\<close>.
\<close>

fun best_for_target :: "(Field \<Rightarrow> Field \<Rightarrow> real) \<Rightarrow> string set \<Rightarrow> Field \<Rightarrow> Field list
                          \<Rightarrow> FieldMapping option \<times> real \<Rightarrow> FieldMapping option \<times> real" where
  "best_for_target score mapped_source_fields target_fld [] st = st"
| "best_for_target score mapped_source_fields target_fld (source_fld # rest)
       (best_mapping, best_confidence) =
     (if name source_fld \<in> mapped_source_fields
      then best_for_target score mapped_source_fields target_fld rest
             (best_mapping, best_confidence)
      else (let conf = score source_fld target_fld
            in if conf > best_confidence
               then best_for_target score mapped_source_fields target_fld rest
                      (Some (make_mapping source_fld target_fld conf), conf)
               else best_for_target score mapped_source_fields target_fld rest
                      (best_mapping, best_confidence)))"

text \<open>The outer loop over the target fields; the state is \<open>(mappings, mapped_source_fields)\<close>.\<close>

fun generate_loop :: "(Field \<Rightarrow> Field \<Rightarrow> real) \<Rightarrow> Field list \<Rightarrow> Field list
                        \<Rightarrow> FieldMapping list \<times> string set
                        \<Rightarrow> FieldMapping list \<times> string set" where
  "generate_loop score source_fields [] st = st"
| "generate_loop score source_fields (target_fld # rest) (mappings, mapped_source_fields) =
     (case best_for_target score mapped_source_fields target_fld source_fields (None, 0) of
        (Some best_mapping, best_confidence) \<Rightarrow>
          if best_confidence > 0.3
          then generate_loop score source_fields rest
                 (mappings @ [best_mapping],
                  insert (source_field best_mapping) mapped_source_fields)
          else generate_loop score source_fields rest (mappings, mapped_source_fields)
      | (None, best_confidence) \<Rightarrow>
          generate_loop score source_fields rest (mappings, mapped_source_fields))"

definition cache_key :: "Schema \<Rightarrow> Schema \<Rightarrow> string" where
  "cache_key source target = schema_id source @ ''_'' @ schema_id target"

definition generate_mappings ::
  "(Field \<Rightarrow> Field \<Rightarrow> real) \<Rightarrow> (string \<rightharpoonup> FieldMapping list) \<Rightarrow> Schema \<Rightarrow> Schema
     \<Rightarrow> FieldMapping list \<times> (string \<rightharpoonup> FieldMapping list)" where
  "generate_mappings score mapping_cache source target =
     (let mappings =
            fst (generate_loop score (schema_fields source) (schema_fields target) ([], {}))
      in (mappings, mapping_cache(cache_key source target \<mapsto> mappings)))"

section \<open>Schema diffing (DataDiscoveryAgent.detect\_schema\_changes)\<close>

text \<open>
  A Python \<open>dict\<close> is an association list in insertion order: assigning to a present
  key keeps its position, assigning to a new key appends, \<open>del\<close> removes the entry.
\<close>

definition fields_dict :: "Field list \<Rightarrow> (string \<times> Field) list" where
  "fields_dict fs = foldl (\<lambda>d f. AList.update (name f) f d) [] fs"

definition bool_str :: "bool \<Rightarrow> string" where
  "bool_str b = (if b then ''True'' else ''False'')"

text \<open>The three loops of \<open>detect_schema_changes\<close>, in the order of the source.\<close>

definition added_changes ::
  "string \<Rightarrow> (string \<times> Field) list \<Rightarrow> (string \<times> Field) list \<Rightarrow> SchemaChange list" where
  "added_changes sid old_fields new_fields =
     concat (map (\<lambda>(fname, f).
               if map_of old_fields fname = None
               then [\<lparr>change_source_id = sid, change_type = ''added'', field_name = fname,
                      old_value = None, new_value = Some (data_type f)\<rparr>]
               else []) new_fields)"

definition removed_changes ::
  "string \<Rightarrow> (string \<times> Field) list \<Rightarrow> (string \<times> Field) list \<Rightarrow> SchemaChange list" where
  "removed_changes sid old_fields new_fields =
     concat (map (\<lambda>(fname, f).
               if map_of new_fields fname = None
               then [\<lparr>change_source_id = sid, change_type = ''removed'', field_name = fname,
                      old_value = Some (data_type f), new_value = None\<rparr>]
               else []) old_fields)"

definition field_changes :: "string \<Rightarrow> string \<Rightarrow> Field \<Rightarrow> Field \<Rightarrow> SchemaChange list" where
  "field_changes sid fname old_field new_field =
     (if data_type old_field \<noteq> data_type new_field
      then [\<lparr>change_source_id = sid, change_type = ''type_changed'', field_name = fname,
             old_value = Some (data_type old_field),
             new_value = Some (data_type new_field)\<rparr>]
      else [])
     @ (if nullable old_field \<noteq> nullable new_field
        then [\<lparr>change_source_id = sid, change_type = ''modified'', field_name = fname,
               old_value = Some (''nullable='' @ bool_str (nullable old_field)),
               new_value = Some (''nullable='' @ bool_str (nullable new_field))\<rparr>]
        else [])"

definition modified_changes ::
  "string \<Rightarrow> (string \<times> Field) list \<Rightarrow> (string \<times> Field) list \<Rightarrow> SchemaChange list" where
  "modified_changes sid old_fields new_fields =
     concat (map (\<lambda>(fname, old_field).
               case map_of new_fields fname of
                 None \<Rightarrow> []
               | Some new_field \<Rightarrow> field_changes sid fname old_field new_field) old_fields)"

definition schema_diff :: "string \<Rightarrow> Schema \<Rightarrow> Schema \<Rightarrow> SchemaChange list" where
  "schema_diff sid old_schema new_schema =
     (let old_fields = fields_dict (schema_fields old_schema);
          new_fields = fields_dict (schema_fields new_schema)
      in added_changes sid old_fields new_fields
         @ removed_changes sid old_fields new_fields
         @ modified_changes sid old_fields new_fields)"

definition detect_schema_changes ::
  "(string \<rightharpoonup> Schema) \<Rightarrow> string \<Rightarrow> Schema \<Rightarrow> SchemaChange list \<times> (string \<rightharpoonup> Schema)" where
  "detect_schema_changes schema_cache sid new_schema =
     (case schema_cache sid of
        None \<Rightarrow> ([], schema_cache(sid \<mapsto> new_schema))
      | Some old_schema \<Rightarrow>
          (let changes = schema_diff sid old_schema new_schema
           in if changes \<noteq> [] then (changes, schema_cache(sid \<mapsto> new_schema))
              else (changes, schema_cache)))"

section \<open>Incremental update (SchemaMappingAgent.update\_mappings)\<close>

text \<open>\<open>next((f for f in fields if f.name == n), None)\<close>\<close>

definition find_field :: "Field list \<Rightarrow> string \<Rightarrow> Field option" where
  "find_field fs n = find (\<lambda>f. name f = n) fs"

text \<open>
  The scan of the target fields for an added source field.  The test for a used target
  reads \<open>existing_mappings\<close>, the list taken from the cache when the call began; the
  loop ends (\<open>break\<close>) at the first target that clears 0.5.
\<close>

fun map_added_field :: "FieldMapping list \<Rightarrow> Field \<Rightarrow> Field list
                          \<Rightarrow> (string \<times> FieldMapping) list \<Rightarrow> (string \<times> FieldMapping) list" where
  "map_added_field existing_mappings new_field [] mapping_dict = mapping_dict"
| "map_added_field existing_mappings new_field (target_fld # rest) mapping_dict =
     (if name target_fld \<notin> set (map target_field existing_mappings)
      then (let conf = field_confidence new_field target_fld
            in if conf > 0.5
               then AList.update (name new_field) (make_mapping new_field target_fld conf)
                      mapping_dict
               else map_added_field existing_mappings new_field rest mapping_dict)
      else map_added_field existing_mappings new_field rest mapping_dict)"

text \<open>One iteration of the loop over \<open>schema_changes\<close>.\<close>

definition apply_change :: "FieldMapping list \<Rightarrow> Schema \<Rightarrow> Schema
     \<Rightarrow> (string \<times> FieldMapping) list \<Rightarrow> SchemaChange \<Rightarrow> (string \<times> FieldMapping) list" where
  "apply_change existing_mappings source target mapping_dict change =
     (if change_type change = ''added'' then
        (case find_field (schema_fields source) (field_name change) of
           None \<Rightarrow> mapping_dict
         | Some new_field \<Rightarrow>
             map_added_field existing_mappings new_field (schema_fields target) mapping_dict)
      else if change_type change = ''removed'' then
        (if map_of mapping_dict (field_name change) \<noteq> None
         then AList.delete (field_name change) mapping_dict
         else mapping_dict)
      else if change_type change = ''type_changed'' then
        (case map_of mapping_dict (field_name change) of
           None \<Rightarrow> mapping_dict
         | Some old_mapping \<Rightarrow>
             (case (find_field (schema_fields source) (field_name change),
                    find_field (schema_fields target) (target_field old_mapping)) of
                (Some updated_field, Some target_fld) \<Rightarrow>
                  AList.update (field_name change)
                    (make_mapping updated_field target_fld
                       (field_confidence updated_field target_fld))
                    mapping_dict
              | _ \<Rightarrow> mapping_dict))
      else mapping_dict)"

definition mappings_dict :: "FieldMapping list \<Rightarrow> (string \<times> FieldMapping) list" where
  "mappings_dict ms = foldl (\<lambda>d m. AList.update (source_field m) m d) [] ms"

definition update_mappings ::
  "(string \<rightharpoonup> FieldMapping list) \<Rightarrow> SchemaChange list \<Rightarrow> Schema \<Rightarrow> Schema
     \<Rightarrow> FieldMapping list \<times> (string \<rightharpoonup> FieldMapping list)" where
  "update_mappings mapping_cache schema_changes source target =
     (let key = cache_key source target;
          existing_mappings = (case mapping_cache key of None \<Rightarrow> [] | Some ms \<Rightarrow> ms);
          mapping_dict = mappings_dict existing_mappings;
          mapping_dict = foldl (apply_change existing_mappings source target)
                           mapping_dict schema_changes;
          updated_mappings = map snd mapping_dict
      in (updated_mappings, mapping_cache(key \<mapsto> updated_mappings)))"

section \<open>Example schemas\<close>

definition mk_field :: "string \<Rightarrow> string \<Rightarrow> bool \<Rightarrow> Field" where
  "mk_field n t nl = \<lparr>name = n, data_type = t, nullable = nl, description = None\<rparr>"

definition mk_schema :: "string \<Rightarrow> string \<Rightarrow> Field list \<Rightarrow> Schema" where
  "mk_schema i sid fs = \<lparr>schema_id = i, source_id = sid, version = 1, schema_fields = fs,
                          timestamp = 0, table_name = None\<rparr>"

definition mk_change :: "string \<Rightarrow> string \<Rightarrow> SchemaChange" where
  "mk_change t n = \<lparr>change_source_id = ''src'', change_type = t, field_name = n,
                     old_value = None, new_value = None\<rparr>"

definition schema_v1 :: Schema where
  "schema_v1 = mk_schema ''orders_v1'' ''orders'' [mk_field ''id'' ''INTEGER'' False]"

definition schema_v1_again :: Schema where
  "schema_v1_again = mk_schema ''orders_v1b'' ''orders'' [mk_field ''id'' ''INTEGER'' False]"

definition schema_v2 :: Schema where
  "schema_v2 = mk_schema ''orders_v2'' ''orders''
     [mk_field ''id'' ''INTEGER'' False, mk_field ''email'' ''VARCHAR'' True]"

definition schema_v1_sized :: Schema where
  "schema_v1_sized = mk_schema ''orders_v1c'' ''orders'' [mk_field ''id'' ''integer(10)'' False]"

definition schema_v1_decimal :: Schema where
  "schema_v1_decimal = mk_schema ''orders_v3'' ''orders'' [mk_field ''id'' ''DECIMAL'' False]"

definition source_users :: Schema where
  "source_users = mk_schema ''users_src'' ''users''
     [mk_field ''user_id'' ''INTEGER'' False, mk_field ''user_name'' ''VARCHAR(255)'' False,
      mk_field ''email_addr'' ''VARCHAR(255)'' True]"

definition target_users :: Schema where
  "target_users = mk_schema ''users_tgt'' ''warehouse''
     [mk_field ''id'' ''BIGINT'' False, mk_field ''username'' ''TEXT'' False,
      mk_field ''email'' ''TEXT'' True]"

definition source_twins :: Schema where
  "source_twins = mk_schema ''people_src'' ''people''
     [mk_field ''name'' ''TEXT'' False, mk_field ''na_me'' ''TEXT'' False]"

definition target_single :: Schema where
  "target_single = mk_schema ''people_tgt'' ''warehouse'' [mk_field ''name'' ''TEXT'' False]"

section \<open>Type compatibility\<close>

text \<open>The families of section 4.1 of the specification.\<close>

definition type_families :: "string list list" where
  "type_families = [
     [''VARCHAR'', ''TEXT'', ''CHAR'', ''STRING''],
     [''INTEGER'', ''BIGINT'', ''SMALLINT'', ''INT'', ''NUMERIC'', ''DECIMAL''],
     [''FLOAT'', ''DOUBLE'', ''NUMERIC'', ''DECIMAL''],
     [''DATE'', ''TIMESTAMP'', ''DATETIME''],
     [''BOOLEAN'', ''BOOL'', ''BIT''],
     [''BLOB'', ''BINARY'', ''VARBINARY'']]"

definition incompatible_pairs :: "string list \<Rightarrow> (string \<times> string) list" where
  "incompatible_pairs family =
     filter (\<lambda>(a, b). \<not> check_type_compatibility a b) (List.product family family)"

text \<open>
  The ordered pairs of each family that the check rejects; every other ordered pair of a
  family passes.  A type whose normal form has no row in the table is compatible with
  exactly the types of the same normal form, and pairs from different families fail.
\<close>

lemma family_pairs_incompatible:
  "map incompatible_pairs type_families =
     [[],
      [(''NUMERIC'', ''SMALLINT''), (''NUMERIC'', ''INT''),
       (''DECIMAL'', ''SMALLINT''), (''DECIMAL'', ''INT'')],
      [], [],
      [(''BIT'', ''BOOLEAN''), (''BIT'', ''BOOL'')],
      [(''VARBINARY'', ''BLOB''), (''VARBINARY'', ''BINARY'')]]"
  by code_simp

lemma unknown_type_compatibility:
  "map_of TYPE_COMPATIBILITY (normalize_type a) = None \<Longrightarrow>
   check_type_compatibility a b = (normalize_type a = normalize_type b)"
  by (simp add: check_type_compatibility_def Let_def)

lemma cross_family_incompatible:
  "\<not> check_type_compatibility ''INTEGER'' ''VARCHAR'' \<and> \<not> check_type_compatibility ''DATE'' ''INTEGER''"
  by code_simp

text \<open>
  C3.  The claim asks that every ordered pair of one family of section 4.1 be compatible.
  The table \<open>TYPE_COMPATIBILITY\<close> lists \<open>BIT\<close> and \<open>VARBINARY\<close> as targets but has no row
  for them as sources, and its \<open>NUMERIC\<close> and \<open>DECIMAL\<close> rows leave out \<open>SMALLINT\<close> and
  \<open>INT\<close>.  The check therefore fails for the eight ordered pairs below, while each
  reversed pair passes.
\<close>

theorem type_compatibility_family_gaps:
  "\<not> check_type_compatibility ''BIT'' ''BOOLEAN'' \<and> check_type_compatibility ''BOOLEAN'' ''BIT''
   \<and> \<not> check_type_compatibility ''BIT'' ''BOOL'' \<and> check_type_compatibility ''BOOL'' ''BIT''
   \<and> \<not> check_type_compatibility ''VARBINARY'' ''BLOB''
   \<and> check_type_compatibility ''BLOB'' ''VARBINARY''
   \<and> \<not> check_type_compatibility ''VARBINARY'' ''BINARY''
   \<and> check_type_compatibility ''BINARY'' ''VARBINARY''
   \<and> \<not> check_type_compatibility ''NUMERIC'' ''SMALLINT''
   \<and> check_type_compatibility ''SMALLINT'' ''NUMERIC''
   \<and> \<not> check_type_compatibility ''NUMERIC'' ''INT'' \<and> check_type_compatibility ''INT'' ''NUMERIC''
   \<and> \<not> check_type_compatibility ''DECIMAL'' ''SMALLINT''
   \<and> check_type_compatibility ''SMALLINT'' ''DECIMAL''
   \<and> \<not> check_type_compatibility ''DECIMAL'' ''INT'' \<and> check_type_compatibility ''INT'' ''DECIMAL''"
  by code_simp

section \<open>Confidence\<close>







section \<open>Name similarity\<close>

lemma str_contains_Nil: "str_contains [] ys"
  by (induction ys) auto

lemma abbreviation_boost_mono:
  "(s::real) \<le> foldl (\<lambda>similarity (abbr, full).
                 if (n1 = abbr \<and> n2 = full) \<or> (n1 = full \<and> n2 = abbr)
                 then max similarity 0.9 else similarity) s (abbrs :: (string \<times> string) list)"
proof (induction abbrs arbitrary: s)
  case Nil
  show ?case by simp
next
  case (Cons p abbrs)
  obtain abbr full where p: "p = (abbr, full)" by (cases p)
  let ?s' = "if (n1 = abbr \<and> n2 = full) \<or> (n1 = full \<and> n2 = abbr) then max s 0.9 else s"
  have "s \<le> ?s'" by simp
  also have "?s' \<le> foldl (\<lambda>similarity (abbr, full).
                 if (n1 = abbr \<and> n2 = full) \<or> (n1 = full \<and> n2 = abbr)
                 then max similarity 0.9 else similarity) ?s' abbrs"
    by (rule Cons.IH)
  finally show ?case by (simp add: p)
qed

lemma similarity_contained:
  assumes "normalize_name a \<noteq> normalize_name b"
    and "str_contains (normalize_name a) (normalize_name b)
         \<or> str_contains (normalize_name b) (normalize_name a)"
  shows "0.8 \<le> calculate_name_similarity a b"
proof -
  let ?s = "max (ratio (normalize_name a) (normalize_name b)) 0.8"
  have "0.8 \<le> ?s" by simp
  also have "?s \<le> calculate_name_similarity a b"
    using assms abbreviation_boost_mono[of ?s "normalize_name a" "normalize_name b"
        common_abbreviations]
    by (simp add: calculate_name_similarity_def Let_def)
  finally show ?thesis .
qed

text \<open>
  C10.  When exactly one of the two names normalises (lower case, underscores and hyphens
  removed) to the empty string, the empty string is contained in the other normal form,
  so the similarity is at least 0.8; when both normalise to the empty string the normal
  forms are equal and the similarity is exactly 1.
\<close>

theorem name_similarity_empty_normal_form:
  "(normalize_name a = [] \<and> normalize_name b \<noteq> [] \<longrightarrow> 0.8 \<le> calculate_name_similarity a b)
   \<and> (normalize_name a \<noteq> [] \<and> normalize_name b = [] \<longrightarrow> 0.8 \<le> calculate_name_similarity a b)
   \<and> (normalize_name a = [] \<and> normalize_name b = [] \<longrightarrow> calculate_name_similarity a b = 1)"
proof (intro conjI impI)
  assume h: "normalize_name a = [] \<and> normalize_name b \<noteq> []"
  then have "str_contains (normalize_name a) (normalize_name b)" by (simp add: str_contains_Nil)
  then show "0.8 \<le> calculate_name_similarity a b"
    using h similarity_contained[of a b] by auto
next
  assume h: "normalize_name a \<noteq> [] \<and> normalize_name b = []"
  then have "str_contains (normalize_name b) (normalize_name a)" by (simp add: str_contains_Nil)
  then show "0.8 \<le> calculate_name_similarity a b"
    using h similarity_contained[of a b] by auto
next
  assume "normalize_name a = [] \<and> normalize_name b = []"
  then show "calculate_name_similarity a b = 1"
    by (simp add: calculate_name_similarity_def)
qed

theorem name_similarity_empty_normal_form_witness:
  "normalize_name ''_-'' = [] \<and> normalize_name ''customer_id'' \<noteq> []
   \<and> 0.8 \<le> calculate_name_similarity ''_-'' ''customer_id''
   \<and> 0.8 \<le> calculate_name_similarity ''customer_id'' ''_-''
   \<and> normalize_name ''__'' = []
   \<and> calculate_name_similarity ''_-'' ''__'' = 1"
proof -
  have e1: "normalize_name ''_-'' = []" by code_simp
  have e2: "normalize_name ''customer_id'' \<noteq> []" by code_simp
  have e3: "normalize_name ''__'' = []" by code_simp
  show ?thesis
    using name_similarity_empty_normal_form[of "''_-''" "''customer_id''"]
      name_similarity_empty_normal_form[of "''customer_id''" "''_-''"]
      name_similarity_empty_normal_form[of "''_-''" "''__''"] e1 e2 e3
    by simp
qed

lemma abbreviation_boost_range:
  "0 \<le> (s::real) \<Longrightarrow> s \<le> 1 \<Longrightarrow>
   0 \<le> foldl (\<lambda>similarity (abbr, full).
                 if (n1 = abbr \<and> n2 = full) \<or> (n1 = full \<and> n2 = abbr)
                 then max similarity 0.9 else similarity) s (abbrs :: (string \<times> string) list)
   \<and> foldl (\<lambda>similarity (abbr, full).
                 if (n1 = abbr \<and> n2 = full) \<or> (n1 = full \<and> n2 = abbr)
                 then max similarity 0.9 else similarity) s abbrs \<le> 1"
proof (induction abbrs arbitrary: s)
  case Nil
  then show ?case by simp
next
  case (Cons p abbrs)
  obtain abbr full where p: "p = (abbr, full)" by (cases p)
  let ?s' = "if (n1 = abbr \<and> n2 = full) \<or> (n1 = full \<and> n2 = abbr) then max s 0.9 else s"
  have "0 \<le> ?s'" "?s' \<le> 1" using Cons.prems by auto
  then show ?case using Cons.IH[of ?s'] by (simp add: p)
qed

lemma name_similarity_range:
  "0 \<le> calculate_name_similarity a b \<and> calculate_name_similarity a b \<le> 1"
proof (cases "normalize_name a = normalize_name b")
  case True
  then show ?thesis by (simp add: calculate_name_similarity_def)
next
  case False
  let ?r = "ratio (normalize_name a) (normalize_name b)"
  let ?s = "if str_contains (normalize_name a) (normalize_name b)
               \<or> str_contains (normalize_name b) (normalize_name a)
            then max ?r 0.8 else ?r"
  have "0 \<le> ?r \<and> ?r \<le> 1" by (rule ratio_range)
  then have "0 \<le> ?s" "?s \<le> 1" by auto
  then show ?thesis
    using False abbreviation_boost_range[of ?s "normalize_name a" "normalize_name b"
        common_abbreviations]
    by (simp add: calculate_name_similarity_def Let_def)
qed

lemma name_similarity_sym_if_ratio_sym:
  assumes "ratio (normalize_name a) (normalize_name b) = ratio (normalize_name b) (normalize_name a)"
  shows "calculate_name_similarity a b = calculate_name_similarity b a"
proof -
  have f: "(\<lambda>similarity (abbr, full).
              if (normalize_name a = abbr \<and> normalize_name b = full)
                 \<or> (normalize_name a = full \<and> normalize_name b = abbr)
              then max similarity 0.9 else similarity)
         = (\<lambda>(similarity::real) (abbr, full).
              if (normalize_name b = abbr \<and> normalize_name a = full)
                 \<or> (normalize_name b = full \<and> normalize_name a = abbr)
              then max similarity 0.9 else similarity)"
    by (auto simp: fun_eq_iff)
  have c: "(str_contains (normalize_name a) (normalize_name b)
              \<or> str_contains (normalize_name b) (normalize_name a))
         = (str_contains (normalize_name b) (normalize_name a)
              \<or> str_contains (normalize_name a) (normalize_name b))"
    by auto
  have e: "(normalize_name a = normalize_name b) = (normalize_name b = normalize_name a)"
    by auto
  show ?thesis
    unfolding calculate_name_similarity_def Let_def f assms c e ..
qed

text \<open>
  C6 (as amended).  The similarity of two names with equal normal forms, in particular of a
  name with itself, is exactly 1; the result always lies in [0,1]; and the similarity of a
  pair is the same in both argument orders whenever the block-matching ratio of the two
  normal forms is.  The substring boost and the abbreviation boost are symmetric; the
  ratio of \<open>difflib.SequenceMatcher\<close> is not (see the counterexample below).
\<close>

theorem name_similarity_properties:
  "(normalize_name a = normalize_name b \<longrightarrow> calculate_name_similarity a b = 1)
   \<and> calculate_name_similarity a a = 1
   \<and> 0 \<le> calculate_name_similarity a b \<and> calculate_name_similarity a b \<le> 1
   \<and> (ratio (normalize_name a) (normalize_name b) = ratio (normalize_name b) (normalize_name a)
        \<longrightarrow> calculate_name_similarity a b = calculate_name_similarity b a)"
  using name_similarity_range[of a b] name_similarity_sym_if_ratio_sym[of a b]
  by (simp add: calculate_name_similarity_def)

theorem name_similarity_properties_witness:
  "calculate_name_similarity ''user_id'' ''USER-ID'' = 1
   \<and> calculate_name_similarity ''user_id'' ''user_id'' = 1
   \<and> ratio (normalize_name ''user_id'') (normalize_name ''id'')
       = ratio (normalize_name ''id'') (normalize_name ''user_id'')
   \<and> calculate_name_similarity ''user_id'' ''id'' = calculate_name_similarity ''id'' ''user_id''
   \<and> calculate_name_similarity ''user_id'' ''id'' \<le> 1"
proof -
  have n: "normalize_name ''user_id'' = normalize_name ''USER-ID''" by code_simp
  have r: "ratio (normalize_name ''user_id'') (normalize_name ''id'')
       = ratio (normalize_name ''id'') (normalize_name ''user_id'')" by code_simp
  show ?thesis
    using name_similarity_properties[of "''user_id''" "''USER-ID''"]
      name_similarity_properties[of "''user_id''" "''id''"] n r
    by simp
qed

text \<open>
  C6 as stated claims symmetry for all names.  The matcher picks, among the longest
  common blocks, the one that starts earliest in its first argument, and only matches the
  remainders on either side of it: for \<open>tide\<close> against \<open>diet\<close> it keeps the block
  \<open>t\<close> and finds nothing else (ratio 2/8), for \<open>diet\<close> against \<open>tide\<close> it keeps
  \<open>d\<close> and then \<open>e\<close> (ratio 4/8).
\<close>

theorem name_similarity_not_symmetric:
  "calculate_name_similarity ''tide'' ''diet'' = 1/4
   \<and> calculate_name_similarity ''diet'' ''tide'' = 1/2"
  by code_simp


section \<open>Schema diffing\<close>

text \<open>
  C7.  Without a cached snapshot for \<open>source_id\<close> the differ stores the supplied schema
  and returns no change.  With a cached snapshot, a call that returns no change leaves the
  whole cache as it was, and a call that returns changes replaces the snapshot of
  \<open>source_id\<close> by the supplied schema.
\<close>

theorem detect_schema_changes_cache:
  "(schema_cache sid = None \<longrightarrow>
      detect_schema_changes schema_cache sid new_schema = ([], schema_cache(sid \<mapsto> new_schema)))
   \<and> (schema_cache sid \<noteq> None \<and> fst (detect_schema_changes schema_cache sid new_schema) = [] \<longrightarrow>
      snd (detect_schema_changes schema_cache sid new_schema) = schema_cache)
   \<and> (fst (detect_schema_changes schema_cache sid new_schema) \<noteq> [] \<longrightarrow>
      snd (detect_schema_changes schema_cache sid new_schema) = schema_cache(sid \<mapsto> new_schema))"
proof (cases "schema_cache sid")
  case None
  then show ?thesis by (simp add: detect_schema_changes_def)
next
  case (Some old_schema)
  then show ?thesis by (simp add: detect_schema_changes_def Let_def)
qed

theorem detect_schema_changes_cache_witness:
  "detect_schema_changes Map.empty ''orders'' schema_v1 = ([], [''orders'' \<mapsto> schema_v1])
   \<and> detect_schema_changes [''orders'' \<mapsto> schema_v1] ''orders'' schema_v1_again
       = ([], [''orders'' \<mapsto> schema_v1])
   \<and> fst (detect_schema_changes [''orders'' \<mapsto> schema_v1] ''orders'' schema_v2) \<noteq> []
   \<and> snd (detect_schema_changes [''orders'' \<mapsto> schema_v1] ''orders'' schema_v2)
       = [''orders'' \<mapsto> schema_v2]"
proof -
  have d1: "fst (detect_schema_changes [''orders'' \<mapsto> schema_v1] ''orders'' schema_v1_again) = []"
    by code_simp
  have d2: "fst (detect_schema_changes [''orders'' \<mapsto> schema_v1] ''orders'' schema_v2) \<noteq> []"
    by code_simp
  have c0: "(Map.empty :: string \<rightharpoonup> Schema) ''orders'' = None" by simp
  have c1: "[''orders'' \<mapsto> schema_v1] ''orders'' \<noteq> None" by simp
  show ?thesis
    using detect_schema_changes_cache[of Map.empty "''orders''" schema_v1]
      detect_schema_changes_cache[of "[''orders'' \<mapsto> schema_v1]" "''orders''" schema_v1_again]
      detect_schema_changes_cache[of "[''orders'' \<mapsto> schema_v1]" "''orders''" schema_v2]
      d1 d2 c0 c1
    by (simp add: prod_eq_iff)
qed


lemma fields_dict_fold_distinct:
  "distinct (map fst d) \<Longrightarrow>
   distinct (map fst (foldl (\<lambda>d f. AList.update (name f) f d) d fs))"
  by (induction fs arbitrary: d) (simp_all add: distinct_update)

lemma fields_dict_distinct: "distinct (map fst (fields_dict fs))"
  unfolding fields_dict_def by (rule fields_dict_fold_distinct) simp

lemma filter_concat_map:
  "filter P (concat (map f xs)) = concat (map (\<lambda>x. filter P (f x)) xs)"
  by (induction xs) simp_all

lemma concat_map_single_key:
  "distinct (map fst xs) \<Longrightarrow> map_of xs n = Some v \<Longrightarrow>
   concat (map (\<lambda>(k, w). if k = n then g w else []) xs) = g v"
proof (induction xs)
  case Nil
  then show ?case by simp
next
  case (Cons p xs)
  obtain k w where p: "p = (k, w)" by (cases p)
  show ?case
  proof (cases "k = n")
    case True
    then have v: "w = v" using Cons.prems(2) p by simp
    have "n \<notin> fst ` set xs" using Cons.prems(1) p True by auto
    then have "concat (map (\<lambda>(k, w). if k = n then g w else []) xs) = []"
      by (induction xs) auto
    then show ?thesis using p True v by simp
  next
    case False
    then show ?thesis using Cons p by simp
  qed
qed

definition is_type_change_of :: "string \<Rightarrow> SchemaChange \<Rightarrow> bool" where
  "is_type_change_of n c = (change_type c = ''type_changed'' \<and> field_name c = n)"

lemma filter_added_changes:
  "filter (is_type_change_of n) (added_changes sid old_fields new_fields) = []"
  unfolding added_changes_def filter_concat_map
  by (induction new_fields) (auto simp: is_type_change_of_def)

lemma filter_removed_changes:
  "filter (is_type_change_of n) (removed_changes sid old_fields new_fields) = []"
  unfolding removed_changes_def filter_concat_map
  by (induction old_fields) (auto simp: is_type_change_of_def)

lemma filter_field_changes:
  "filter (is_type_change_of n) (field_changes sid fname fo fn) =
     (if fname = n \<and> data_type fo \<noteq> data_type fn
      then [\<lparr>change_source_id = sid, change_type = ''type_changed'', field_name = n,
             old_value = Some (data_type fo), new_value = Some (data_type fn)\<rparr>]
      else [])"
  by (simp add: field_changes_def is_type_change_of_def)

lemma filter_modified_changes:
  assumes "distinct (map fst old_fields)" and "map_of old_fields n = Some fo"
    and "map_of new_fields n = Some fn"
  shows "filter (is_type_change_of n) (modified_changes sid old_fields new_fields) =
     (if data_type fo \<noteq> data_type fn
      then [\<lparr>change_source_id = sid, change_type = ''type_changed'', field_name = n,
             old_value = Some (data_type fo), new_value = Some (data_type fn)\<rparr>]
      else [])"
proof -
  let ?g = "\<lambda>old_field. if data_type old_field \<noteq> data_type fn
      then [\<lparr>change_source_id = sid, change_type = ''type_changed'', field_name = n,
             old_value = Some (data_type old_field), new_value = Some (data_type fn)\<rparr>]
      else []"
  have "(\<lambda>x. filter (is_type_change_of n)
          (case x of (fname, old_field) \<Rightarrow>
             case map_of new_fields fname of None \<Rightarrow> []
             | Some new_field \<Rightarrow> field_changes sid fname old_field new_field))
        = (\<lambda>(k, w). if k = n then ?g w else [])"
    using assms(3) by (auto simp: fun_eq_iff filter_field_changes split: option.splits)
  then have "filter (is_type_change_of n) (modified_changes sid old_fields new_fields)
        = concat (map (\<lambda>(k, w). if k = n then ?g w else []) old_fields)"
    unfolding modified_changes_def filter_concat_map by simp
  also have "\<dots> = ?g fo"
    by (rule concat_map_single_key[OF assms(1,2)])
  finally show ?thesis .
qed

text \<open>
  C4 (as amended).  For a field name held by both the cached and the new snapshot, the
  changes returned contain exactly one \<open>type_changed\<close> change for that name when the two
  \<open>data_type\<close> strings differ as written, and none when they are equal; its
  \<open>old_value\<close> and \<open>new_value\<close> are the two strings as written.  No normalisation
  takes part.
\<close>

theorem type_changed_on_raw_types:
  assumes "schema_cache sid = Some old_schema"
    and "map_of (fields_dict (schema_fields old_schema)) n = Some fo"
    and "map_of (fields_dict (schema_fields new_schema)) n = Some fn"
  shows "filter (is_type_change_of n) (fst (detect_schema_changes schema_cache sid new_schema)) =
     (if data_type fo \<noteq> data_type fn
      then [\<lparr>change_source_id = sid, change_type = ''type_changed'', field_name = n,
             old_value = Some (data_type fo), new_value = Some (data_type fn)\<rparr>]
      else [])"
proof -
  have "fst (detect_schema_changes schema_cache sid new_schema) = schema_diff sid old_schema new_schema"
    using assms(1) by (simp add: detect_schema_changes_def Let_def)
  then show ?thesis
    using filter_modified_changes[OF fields_dict_distinct assms(2,3)]
    by (simp add: schema_diff_def Let_def filter_added_changes filter_removed_changes)
qed

theorem type_changed_on_raw_types_witness:
  "filter (is_type_change_of ''id'')
     (fst (detect_schema_changes [''orders'' \<mapsto> schema_v1] ''orders'' schema_v1_decimal))
   = [\<lparr>change_source_id = ''orders'', change_type = ''type_changed'', field_name = ''id'',
        old_value = Some ''INTEGER'', new_value = Some ''DECIMAL''\<rparr>]
   \<and> filter (is_type_change_of ''id'')
     (fst (detect_schema_changes [''orders'' \<mapsto> schema_v1] ''orders'' schema_v1_again)) = []"
proof -
  have c: "[''orders'' \<mapsto> schema_v1] ''orders'' = Some schema_v1" by simp
  have o: "map_of (fields_dict (schema_fields schema_v1)) ''id''
             = Some (mk_field ''id'' ''INTEGER'' False)" by code_simp
  have n1: "map_of (fields_dict (schema_fields schema_v1_decimal)) ''id''
             = Some (mk_field ''id'' ''DECIMAL'' False)" by code_simp
  have n2: "map_of (fields_dict (schema_fields schema_v1_again)) ''id''
             = Some (mk_field ''id'' ''INTEGER'' False)" by code_simp
  show ?thesis
    using type_changed_on_raw_types[of "[''orders'' \<mapsto> schema_v1]" "''orders''" schema_v1
        "''id''" "mk_field ''id'' ''INTEGER'' False" schema_v1_decimal
        "mk_field ''id'' ''DECIMAL'' False", OF c o n1]
      type_changed_on_raw_types[of "[''orders'' \<mapsto> schema_v1]" "''orders''" schema_v1
        "''id''" "mk_field ''id'' ''INTEGER'' False" schema_v1_again
        "mk_field ''id'' ''INTEGER'' False", OF c o n2]
    by (simp add: mk_field_def)
qed

text \<open>
  C4 as stated speaks of normalised types.  \<open>INTEGER\<close> and \<open>integer(10)\<close> have the
  same normal form, yet the differ reports a \<open>type_changed\<close> change that carries both
  spellings.
\<close>

theorem type_changed_ignores_normalisation:
  "normalize_type ''INTEGER'' = normalize_type ''integer(10)''
   \<and> fst (detect_schema_changes [''orders'' \<mapsto> schema_v1] ''orders'' schema_v1_sized)
     = [\<lparr>change_source_id = ''orders'', change_type = ''type_changed'', field_name = ''id'',
          old_value = Some ''INTEGER'', new_value = Some ''integer(10)''\<rparr>]"
  by code_simp


section \<open>Incremental update: properties\<close>

definition keyed :: "(string \<times> FieldMapping) list \<Rightarrow> bool" where
  "keyed d = list_all (\<lambda>(k, m). source_field m = k) d"

lemma source_field_make_mapping: "source_field (make_mapping f tf c) = name f"
  by (simp add: make_mapping_def)

lemma target_field_make_mapping: "target_field (make_mapping f tf c) = name tf"
  by (simp add: make_mapping_def)

lemma confidence_make_mapping: "confidence (make_mapping f tf c) = c"
  by (simp add: make_mapping_def)

lemma keyed_update: "keyed d \<Longrightarrow> source_field m = k \<Longrightarrow> keyed (AList.update k m d)"
  by (induction d) (auto simp: keyed_def)

lemma keyed_delete: "keyed d \<Longrightarrow> keyed (AList.delete k d)"
  by (induction d) (auto simp: keyed_def)

lemma find_field_name: "find_field fs n = Some f \<Longrightarrow> name f = n \<and> f \<in> set fs"
  unfolding find_field_def by (induction fs) (auto split: if_splits)

lemma find_field_None: "n \<notin> name ` set fs \<Longrightarrow> find_field fs n = None"
  unfolding find_field_def by (induction fs) auto

lemma keyed_map_added_field:
  "keyed d \<Longrightarrow> keyed (map_added_field ex f tfs d)"
  by (induction tfs) (auto simp: Let_def keyed_update source_field_make_mapping)

lemma keyed_apply_change: "keyed d \<Longrightarrow> keyed (apply_change ex s t d c)"
  unfolding apply_change_def
  by (auto simp: keyed_map_added_field keyed_delete keyed_update source_field_make_mapping
      dest: find_field_name split: option.splits)

lemma keyed_foldl_apply_change:
  "keyed d \<Longrightarrow> keyed (foldl (apply_change ex s t) d cs)"
  by (induction cs arbitrary: d) (simp_all add: keyed_apply_change)

lemma keyed_mappings_dict_fold:
  "keyed d \<Longrightarrow> keyed (foldl (\<lambda>d m. AList.update (source_field m) m d) d ms)"
  by (induction ms arbitrary: d) (simp_all add: keyed_update)

lemma keyed_mappings_dict: "keyed (mappings_dict ms)"
  unfolding mappings_dict_def by (rule keyed_mappings_dict_fold) (simp add: keyed_def)

lemma values_delete:
  "keyed d \<Longrightarrow> map snd (AList.delete k d) = filter (\<lambda>m. source_field m \<noteq> k) (map snd d)"
  by (induction d) (auto simp: keyed_def)

lemma apply_change_removed:
  "change_type c = ''removed'' \<Longrightarrow> apply_change ex s t d c = AList.delete (field_name c) d"
proof -
  assume r: "change_type c = ''removed''"
  show ?thesis
  proof (cases "map_of d (field_name c)")
    case None
    then have "field_name c \<notin> fst ` set d" by (simp add: map_of_eq_None_iff)
    then show ?thesis using r None by (simp add: apply_change_def)
  next
    case (Some m)
    then show ?thesis using r by (simp add: apply_change_def)
  qed
qed

lemma apply_change_skipped:
  assumes "change_type c = ''modified''
           \<or> ((change_type c = ''added'' \<or> change_type c = ''type_changed'')
               \<and> field_name c \<notin> name ` set (schema_fields s))"
  shows "apply_change ex s t d c = d"
  using assms
  by (auto simp: apply_change_def find_field_None split: option.splits)

definition current_dict ::
  "(string \<rightharpoonup> FieldMapping list) \<Rightarrow> SchemaChange list \<Rightarrow> Schema \<Rightarrow> Schema
     \<Rightarrow> (string \<times> FieldMapping) list" where
  "current_dict mapping_cache schema_changes source target =
     (let existing_mappings =
            (case mapping_cache (cache_key source target) of None \<Rightarrow> [] | Some ms \<Rightarrow> ms)
      in foldl (apply_change existing_mappings source target)
           (mappings_dict existing_mappings) schema_changes)"

lemma update_mappings_current_dict:
  "update_mappings mc cs s t =
     (map snd (current_dict mc cs s t),
      mc(cache_key s t \<mapsto> map snd (current_dict mc cs s t)))"
  by (simp add: update_mappings_def current_dict_def Let_def)

lemma keyed_current_dict: "keyed (current_dict mc cs s t)"
  unfolding current_dict_def Let_def
  by (rule keyed_foldl_apply_change) (rule keyed_mappings_dict)

lemma current_dict_snoc:
  "current_dict mc (cs @ [c]) s t =
     apply_change (case mc (cache_key s t) of None \<Rightarrow> [] | Some ms \<Rightarrow> ms) s t
       (current_dict mc cs s t) c"
  by (simp add: current_dict_def Let_def)

lemma current_dict_skip:
  assumes "change_type c = ''modified''
           \<or> ((change_type c = ''added'' \<or> change_type c = ''type_changed'')
               \<and> field_name c \<notin> name ` set (schema_fields s))"
  shows "current_dict mc (cs1 @ c # cs2) s t = current_dict mc (cs1 @ cs2) s t"
  by (simp add: current_dict_def Let_def apply_change_skipped[OF assms])

text \<open>
  C8.  In every batch: a \<open>removed\<close> change deletes the mapping keyed by its field name
  and leaves every other entry (so it changes nothing when no such entry exists); an
  \<open>added\<close> or \<open>type_changed\<close> change whose field name the supplied schema does not
  contain, and any \<open>modified\<close> change, leave the mapping set as it is, and the batch
  gives the result it gives without that change: the changes before and after it are
  processed as usual.
\<close>

theorem update_mappings_change_handling:
  "(change_type c = ''removed'' \<longrightarrow>
      map_of (apply_change ex s t d c) = (map_of d)(field_name c := None)
      \<and> fst (update_mappings mc (cs @ [c]) s t)
          = filter (\<lambda>m. source_field m \<noteq> field_name c) (fst (update_mappings mc cs s t)))
   \<and> (change_type c = ''removed'' \<and> map_of d (field_name c) = None \<longrightarrow>
      apply_change ex s t d c = d)
   \<and> ((change_type c = ''added'' \<or> change_type c = ''type_changed'')
        \<and> field_name c \<notin> name ` set (schema_fields s) \<longrightarrow>
      apply_change ex s t d c = d
      \<and> update_mappings mc (cs1 @ c # cs2) s t = update_mappings mc (cs1 @ cs2) s t)
   \<and> (change_type c = ''modified'' \<longrightarrow>
      apply_change ex s t d c = d
      \<and> update_mappings mc (cs1 @ c # cs2) s t = update_mappings mc (cs1 @ cs2) s t)"
proof (intro conjI impI)
  assume r: "change_type c = ''removed''"
  show "map_of (apply_change ex s t d c) = (map_of d)(field_name c := None)"
    by (simp add: apply_change_removed[OF r] delete_conv')
  show "fst (update_mappings mc (cs @ [c]) s t)
          = filter (\<lambda>m. source_field m \<noteq> field_name c) (fst (update_mappings mc cs s t))"
    by (simp add: update_mappings_current_dict current_dict_snoc apply_change_removed[OF r]
        values_delete[OF keyed_current_dict])
next
  assume "change_type c = ''removed'' \<and> map_of d (field_name c) = None"
  then show "apply_change ex s t d c = d" by (simp add: apply_change_def)
next
  assume a: "(change_type c = ''added'' \<or> change_type c = ''type_changed'')
        \<and> field_name c \<notin> name ` set (schema_fields s)"
  then show "apply_change ex s t d c = d" by (simp add: apply_change_skipped)
  show "update_mappings mc (cs1 @ c # cs2) s t = update_mappings mc (cs1 @ cs2) s t"
    using a by (simp add: update_mappings_current_dict current_dict_skip)
next
  assume m: "change_type c = ''modified''"
  then show "apply_change ex s t d c = d" by (simp add: apply_change_skipped)
  show "update_mappings mc (cs1 @ c # cs2) s t = update_mappings mc (cs1 @ cs2) s t"
    using m by (simp add: update_mappings_current_dict current_dict_skip)
qed

theorem update_mappings_change_handling_witness:
  "fst (update_mappings Map.empty
          [mk_change ''added'' ''user_name'', mk_change ''removed'' ''user_name'']
          source_users target_users)
     = filter (\<lambda>m. source_field m \<noteq> ''user_name'')
         (fst (update_mappings Map.empty [mk_change ''added'' ''user_name'']
                 source_users target_users))
   \<and> fst (update_mappings Map.empty [mk_change ''added'' ''user_name'']
            source_users target_users)
     = [\<lparr>source_field = ''user_name'', target_field = ''username'',
          transformation = Some ''CAST({field} AS VARCHAR)'', confidence = 1,
          mapping_type = TRANSFORMED\<rparr>]
   \<and> update_mappings Map.empty
        ([mk_change ''removed'' ''email_addr''] @ mk_change ''added'' ''ghost''
           # [mk_change ''added'' ''user_name''])
        source_users target_users
     = update_mappings Map.empty
        ([mk_change ''removed'' ''email_addr''] @ [mk_change ''added'' ''user_name''])
        source_users target_users
   \<and> update_mappings Map.empty
        ([] @ mk_change ''modified'' ''user_name'' # [mk_change ''added'' ''user_name''])
        source_users target_users
     = update_mappings Map.empty ([] @ [mk_change ''added'' ''user_name''])
        source_users target_users"
proof -
  have r: "change_type (mk_change ''removed'' ''user_name'') = ''removed''"
    and f: "field_name (mk_change ''removed'' ''user_name'') = ''user_name''"
    and a: "change_type (mk_change ''added'' ''ghost'') = ''added''"
    and m: "change_type (mk_change ''modified'' ''user_name'') = ''modified''"
    by (simp_all add: mk_change_def)
  have g: "field_name (mk_change ''added'' ''ghost'') \<notin> name ` set (schema_fields source_users)"
    by (simp add: mk_change_def source_users_def mk_schema_def mk_field_def)
  have e: "fst (update_mappings Map.empty [mk_change ''added'' ''user_name'']
            source_users target_users)
     = [\<lparr>source_field = ''user_name'', target_field = ''username'',
          transformation = Some ''CAST({field} AS VARCHAR)'', confidence = 1,
          mapping_type = TRANSFORMED\<rparr>]"
    by code_simp
  show ?thesis
    using update_mappings_change_handling[of "mk_change ''removed'' ''user_name''" "[]"
        source_users target_users "[]" Map.empty "[mk_change ''added'' ''user_name'']" "[]" "[]"]
      update_mappings_change_handling[of "mk_change ''added'' ''ghost''" "[]"
        source_users target_users "[]" Map.empty "[]" "[mk_change ''removed'' ''email_addr'']"
        "[mk_change ''added'' ''user_name'']"]
      update_mappings_change_handling[of "mk_change ''modified'' ''user_name''" "[]"
        source_users target_users "[]" Map.empty "[]" "[]" "[mk_change ''added'' ''user_name'']"]
      r f a m g e
    by simp
qed











section \<open>Mapping generation: properties\<close>

text \<open>Section 4.4 of the specification in its own words.\<close>

fun first_best :: "('a \<Rightarrow> real) \<Rightarrow> 'a list \<Rightarrow> 'a option" where
  "first_best rank [] = None"
| "first_best rank (x # xs) =
     (case first_best rank xs of
        None \<Rightarrow> Some x
      | Some y \<Rightarrow> if rank x < rank y then Some y else Some x)"

fun generate_spec :: "(Field \<Rightarrow> Field \<Rightarrow> real) \<Rightarrow> Field list \<Rightarrow> string set \<Rightarrow> Field list \<Rightarrow> FieldMapping list" where
  "generate_spec score source_fields claimed [] = []"
| "generate_spec score source_fields claimed (target_fld # rest) =
     (let candidates = filter (\<lambda>s. name s \<notin> claimed) source_fields
      in case first_best (\<lambda>s. score s target_fld) candidates of
           None \<Rightarrow> generate_spec score source_fields claimed rest
         | Some s \<Rightarrow>
             if 0.3 < score s target_fld
             then make_mapping s target_fld (score s target_fld)
                    # generate_spec score source_fields (insert (name s) claimed) rest
             else generate_spec score source_fields claimed rest)"

lemma best_for_target_filter:
  "best_for_target score mapped t srcs st
     = best_for_target score {} t (filter (\<lambda>s. name s \<notin> mapped) srcs) st"
proof (induction srcs arbitrary: st)
  case Nil
  show ?case by simp
next
  case (Cons x xs)
  obtain bm bc where st: "st = (bm, bc)" by (cases st)
  show ?case using Cons.IH by (simp add: st Let_def)
qed

lemma best_for_target_first_best:
  "best_for_target score {} t xs (bm, bc) =
     (case first_best (\<lambda>s. score s t) xs of
        None \<Rightarrow> (bm, bc)
      | Some s \<Rightarrow> if bc < score s t
                  then (Some (make_mapping s t (score s t)), score s t)
                  else (bm, bc))"
proof (induction xs arbitrary: bm bc)
  case Nil
  show ?case by simp
next
  case (Cons x xs)
  show ?case
  proof (cases "first_best (\<lambda>s. score s t) xs")
    case None
    then show ?thesis using Cons.IH by (simp add: Let_def)
  next
    case (Some y)
    then show ?thesis using Cons.IH by (auto simp: Let_def)
  qed
qed

lemma generate_loop_spec:
  "generate_loop score srcs tgts (ms, mapped) = (ms', mapped') \<Longrightarrow>
   ms' = ms @ generate_spec score srcs mapped tgts"
proof (induction tgts arbitrary: ms mapped)
  case Nil
  then show ?case by simp
next
  case (Cons t tgts)
  let ?cands = "filter (\<lambda>s. name s \<notin> mapped) srcs"
  have scan: "best_for_target score mapped t srcs (None, 0) =
     (case first_best (\<lambda>s. score s t) ?cands of
        None \<Rightarrow> (None, 0)
      | Some s \<Rightarrow> if 0 < score s t
                  then (Some (make_mapping s t (score s t)), score s t)
                  else (None, 0))"
    by (subst best_for_target_filter) (rule best_for_target_first_best)
  show ?case
  proof (cases "first_best (\<lambda>s. score s t) ?cands")
    case None
    then have "generate_loop score srcs tgts (ms, mapped) = (ms', mapped')"
      using Cons.prems scan by simp
    then show ?thesis using Cons.IH None by (simp add: Let_def)
  next
    case (Some s)
    show ?thesis
    proof (cases "0.3 < score s t")
      case True
      then have "generate_loop score srcs tgts
          (ms @ [make_mapping s t (score s t)], insert (name s) mapped) = (ms', mapped')"
        using Cons.prems scan Some by (simp add: source_field_make_mapping)
      then have "ms' = (ms @ [make_mapping s t (score s t)])
                        @ generate_spec score srcs (insert (name s) mapped) tgts"
        by (rule Cons.IH)
      then show ?thesis using Some True by (simp add: Let_def)
    next
      case False
      then have "generate_loop score srcs tgts (ms, mapped) = (ms', mapped')"
        using Cons.prems scan Some by (simp split: if_splits)
      then show ?thesis using Cons.IH Some False by (simp add: Let_def)
    qed
  qed
qed

lemma generate_mappings_eq_spec:
  "generate_mappings score mapping_cache source target =
     (generate_spec score (schema_fields source) {} (schema_fields target),
      mapping_cache(cache_key source target
        \<mapsto> generate_spec score (schema_fields source) {} (schema_fields target)))"
proof -
  obtain ms mapped where
    g: "generate_loop score (schema_fields source) (schema_fields target) ([], {}) = (ms, mapped)"
    by (cases "generate_loop score (schema_fields source) (schema_fields target) ([], {})")
  then have "ms = [] @ generate_spec score (schema_fields source) {} (schema_fields target)"
    by (rule generate_loop_spec)
  then show ?thesis using g by (simp add: generate_mappings_def Let_def)
qed

lemma first_best_None: "(first_best rank xs = None) = (xs = [])"
  by (cases xs) (auto split: option.splits)

lemma first_best_first_maximum:
  "first_best rank xs = Some b \<Longrightarrow>
   \<exists>pre post. xs = pre @ b # post \<and> (\<forall>x\<in>set pre. rank x < rank b)
              \<and> (\<forall>x\<in>set post. rank x \<le> rank b)"
proof (induction xs arbitrary: b)
  case Nil
  then show ?case by simp
next
  case (Cons x xs)
  show ?case
  proof (cases "first_best rank xs")
    case None
    then have "xs = []" by (simp add: first_best_None)
    moreover have "b = x" using Cons.prems None by simp
    ultimately have "x # xs = [] @ b # [] \<and> (\<forall>z\<in>set []. rank z < rank b)
              \<and> (\<forall>z\<in>set []. rank z \<le> rank b)"
      by simp
    then show ?thesis by blast
  next
    case (Some y)
    then obtain pre post where y: "xs = pre @ y # post" "\<forall>x\<in>set pre. rank x < rank y"
        "\<forall>x\<in>set post. rank x \<le> rank y"
      using Cons.IH by blast
    show ?thesis
    proof (cases "rank x < rank y")
      case True
      then have "b = y" using Cons.prems Some by simp
      then have "x # xs = (x # pre) @ b # post \<and> (\<forall>z\<in>set (x # pre). rank z < rank b)
              \<and> (\<forall>z\<in>set post. rank z \<le> rank b)"
        using y True by simp
      then show ?thesis by blast
    next
      case False
      then have b: "b = x" using Cons.prems Some by simp
      have "\<forall>z\<in>set xs. rank z \<le> rank x"
        using y False by (fastforce simp: not_less)
      then have "x # xs = [] @ b # xs \<and> (\<forall>z\<in>set []. rank z < rank b)
              \<and> (\<forall>z\<in>set xs. rank z \<le> rank b)"
        using b by simp
      then show ?thesis by blast
    qed
  qed
qed

text \<open>
  An input on which rounding decides: both candidates for \<open>user_id\<close> score 21/25 in
  exact arithmetic.  \<open>double_scores\<close> gives the doubles that the scoring calls of the
  program return for the two pairs, as exact fractions: \<open>0.84\<close>
  (\<open>0.6666666666666666 * 1.2 * 1.05\<close>) for \<open>cust_id\<close> and \<open>0.8400000000000001\<close>
  (\<open>0.8 * 1.05\<close>) for \<open>id\<close>.
\<close>

definition source_accounts :: Schema where
  "source_accounts = mk_schema ''accounts_src'' ''accounts''
     [mk_field ''cust_id'' ''INTEGER'' False, mk_field ''id'' ''BIGINT'' False]"

definition target_accounts :: Schema where
  "target_accounts = mk_schema ''accounts_tgt'' ''warehouse''
     [mk_field ''user_id'' ''INTEGER'' False]"

definition double_scores :: "Field \<Rightarrow> Field \<Rightarrow> real" where
  "double_scores source_fld target_fld =
     (if name source_fld = ''cust_id'' \<and> name target_fld = ''user_id''
        then 7566047373982433 / 9007199254740992
      else if name source_fld = ''id'' \<and> name target_fld = ''user_id''
        then 3783023686991217 / 4503599627370496
      else 0)"

text \<open>
  The double that the literal \<open>0.3\<close> denotes is 5404319552844595 / 2^54.  Every double
  from 1/4 up to 2 is an integer multiple of 1 / 2^54, and such a number exceeds that
  double exactly when it exceeds 3/10; a double below 1/4 exceeds neither.
\<close>

lemma acceptance_threshold_on_doubles:
  "(5404319552844595 / 2 ^ 54 < real_of_int m / 2 ^ 54) = (3 / 10 < real_of_int m / 2 ^ 54)"
proof -
  have "(5404319552844595 / 2 ^ 54 < real_of_int m / 2 ^ 54) = (5404319552844595 < m)"
    by (simp add: divide_less_cancel)
  also have "\<dots> = (3 * 2 ^ 54 < 10 * m)" by auto
  also have "\<dots> = (3 / 10 < real_of_int m / 2 ^ 54)"
  proof -
    have "(3 / 10 < real_of_int m / 2 ^ 54) = (3 * 2 ^ 54 < 10 * real_of_int m)"
      by (simp add: field_simps)
    also have "\<dots> = (real_of_int (3 * 2 ^ 54) < real_of_int (10 * m))" by simp
    also have "\<dots> = (3 * 2 ^ 54 < 10 * m)" by (simp only: of_int_less_iff)
    finally show ?thesis by simp
  qed
  finally show ?thesis .
qed

text \<open>
  C1.  For every score, and so for the doubles the program computes,
  \<open>generate_mappings\<close> returns, and stores under the pair's key, exactly the list that
  section 4.4 describes (\<open>generate_spec\<close>): the target fields are taken in declared
  order; the candidates for a target are the source fields whose name no earlier accepted
  mapping has claimed; the candidate kept is the first one of maximal confidence
  (\<open>first_best\<close>: every candidate before it scores strictly less, none after it scores
  more); it is accepted only if its confidence exceeds 0.3, and then its name is claimed
  for the rest of the pass; a target with no accepted candidate contributes nothing.
\<close>

theorem generate_mappings_greedy:
  "generate_mappings score mapping_cache source target =
     (generate_spec score (schema_fields source) {} (schema_fields target),
      mapping_cache(cache_key source target
        \<mapsto> generate_spec score (schema_fields source) {} (schema_fields target)))
   \<and> ((first_best rank xs = None) = (xs = []))
   \<and> (first_best rank xs = Some b \<longrightarrow>
        (\<exists>pre post. xs = pre @ b # post \<and> (\<forall>x\<in>set pre. rank x < rank b)
              \<and> (\<forall>x\<in>set post. rank x \<le> rank b)))"
proof (intro conjI impI)
  show "generate_mappings score mapping_cache source target =
     (generate_spec score (schema_fields source) {} (schema_fields target),
      mapping_cache(cache_key source target
        \<mapsto> generate_spec score (schema_fields source) {} (schema_fields target)))"
    by (rule generate_mappings_eq_spec)
  show "(first_best rank xs = None) = (xs = [])" by (rule first_best_None)
next
  assume "first_best rank xs = Some b"
  then show "\<exists>pre post. xs = pre @ b # post \<and> (\<forall>x\<in>set pre. rank x < rank b)
              \<and> (\<forall>x\<in>set post. rank x \<le> rank b)"
    by (rule first_best_first_maximum)
qed

text \<open>
  Two instances.  The first is the input above with the doubles of the program as score:
  \<open>id\<close> is kept, because its score is the larger double.  The second takes
  \<open>field_confidence\<close> as score on two source fields with the same normal form as the
  target; every intermediate value there is 1, which double arithmetic computes exactly,
  and of the two tied candidates the first is kept.
\<close>

theorem generate_mappings_greedy_witness:
  "fst (generate_mappings double_scores Map.empty source_accounts target_accounts)
     = [\<lparr>source_field = ''id'', target_field = ''user_id'',
          transformation = Some ''CAST({field} AS INTEGER)'',
          confidence = 3783023686991217 / 4503599627370496,
          mapping_type = TRANSFORMED\<rparr>]
   \<and> fst (generate_mappings field_confidence Map.empty source_twins target_single)
     = [\<lparr>source_field = ''name'', target_field = ''name'', transformation = None,
          confidence = 1, mapping_type = DIRECT\<rparr>]
   \<and> first_best (\<lambda>s. field_confidence s (mk_field ''name'' ''TEXT'' False))
         (schema_fields source_twins) = Some (mk_field ''name'' ''TEXT'' False)
   \<and> (\<exists>pre post. schema_fields source_twins = pre @ mk_field ''name'' ''TEXT'' False # post
         \<and> (\<forall>x\<in>set pre. field_confidence x (mk_field ''name'' ''TEXT'' False)
                             < field_confidence (mk_field ''name'' ''TEXT'' False)
                                 (mk_field ''name'' ''TEXT'' False))
         \<and> (\<forall>x\<in>set post. field_confidence x (mk_field ''name'' ''TEXT'' False)
                             \<le> field_confidence (mk_field ''name'' ''TEXT'' False)
                                 (mk_field ''name'' ''TEXT'' False)))"
proof -
  have a: "generate_spec double_scores (schema_fields source_accounts) {}
             (schema_fields target_accounts)
     = [\<lparr>source_field = ''id'', target_field = ''user_id'',
          transformation = Some ''CAST({field} AS INTEGER)'',
          confidence = 3783023686991217 / 4503599627370496,
          mapping_type = TRANSFORMED\<rparr>]"
    by code_simp
  have b: "generate_spec field_confidence (schema_fields source_twins) {}
             (schema_fields target_single)
     = [\<lparr>source_field = ''name'', target_field = ''name'', transformation = None,
          confidence = 1, mapping_type = DIRECT\<rparr>]"
    by code_simp
  have c: "first_best (\<lambda>s. field_confidence s (mk_field ''name'' ''TEXT'' False))
         (schema_fields source_twins) = Some (mk_field ''name'' ''TEXT'' False)"
    by code_simp
  note t1 = generate_mappings_greedy[of double_scores Map.empty source_accounts target_accounts
      "\<lambda>s. field_confidence s (mk_field ''name'' ''TEXT'' False)" "schema_fields source_twins"
      "mk_field ''name'' ''TEXT'' False"]
  note t2 = generate_mappings_greedy[of field_confidence Map.empty source_twins target_single
      "\<lambda>s. field_confidence s (mk_field ''name'' ''TEXT'' False)" "schema_fields source_twins"
      "mk_field ''name'' ''TEXT'' False"]
  have g1: "fst (generate_mappings double_scores Map.empty source_accounts target_accounts)
              = generate_spec double_scores (schema_fields source_accounts) {}
                  (schema_fields target_accounts)"
    using t1 by simp
  have g2: "fst (generate_mappings field_confidence Map.empty source_twins target_single)
              = generate_spec field_confidence (schema_fields source_twins) {}
                  (schema_fields target_single)"
    using t2 by simp
  have g3: "\<exists>pre post. schema_fields source_twins = pre @ mk_field ''name'' ''TEXT'' False # post
         \<and> (\<forall>x\<in>set pre. field_confidence x (mk_field ''name'' ''TEXT'' False)
                             < field_confidence (mk_field ''name'' ''TEXT'' False)
                                 (mk_field ''name'' ''TEXT'' False))
         \<and> (\<forall>x\<in>set post. field_confidence x (mk_field ''name'' ''TEXT'' False)
                             \<le> field_confidence (mk_field ''name'' ''TEXT'' False)
                                 (mk_field ''name'' ''TEXT'' False))"
    using t2 c by blast
  show ?thesis
    unfolding g1 g2 a b using c g3 by blast
qed

section \<open>Uniqueness of source and target fields\<close>

lemma first_best_member: "first_best rank xs = Some b \<Longrightarrow> b \<in> set xs"
  using first_best_first_maximum[of rank xs b] by auto

lemma generate_spec_sources:
  "distinct (map source_field (generate_spec score srcs claimed tgts))
   \<and> (\<forall>m\<in>set (generate_spec score srcs claimed tgts). source_field m \<notin> claimed)"
proof (induction tgts arbitrary: claimed)
  case Nil
  show ?case by simp
next
  case (Cons t tgts)
  let ?cands = "filter (\<lambda>s. name s \<notin> claimed) srcs"
  show ?case
  proof (cases "first_best (\<lambda>s. score s t) ?cands")
    case None
    then show ?thesis using Cons.IH[of claimed] by (simp add: Let_def)
  next
    case (Some s)
    then have "s \<in> set ?cands" by (rule first_best_member)
    then have fresh: "name s \<notin> claimed" by simp
    show ?thesis
    proof (cases "0.3 < score s t")
      case True
      have ih: "distinct (map source_field (generate_spec score srcs (insert (name s) claimed) tgts))
          \<and> (\<forall>m\<in>set (generate_spec score srcs (insert (name s) claimed) tgts).
                source_field m \<notin> insert (name s) claimed)"
        by (rule Cons.IH)
      have "generate_spec score srcs claimed (t # tgts)
              = make_mapping s t (score s t)
                  # generate_spec score srcs (insert (name s) claimed) tgts"
        using Some True by (simp add: Let_def)
      then show ?thesis using ih fresh by (auto simp: source_field_make_mapping)
    next
      case False
      then have "generate_spec score srcs claimed (t # tgts) = generate_spec score srcs claimed tgts"
        using Some by (simp add: Let_def)
      then show ?thesis using Cons.IH[of claimed] by simp
    qed
  qed
qed

lemma generate_spec_targets_subset:
  "set (map target_field (generate_spec score srcs claimed tgts)) \<subseteq> set (map name tgts)"
proof (induction tgts arbitrary: claimed)
  case Nil
  show ?case by simp
next
  case (Cons t tgts)
  show ?case
  proof (cases "first_best (\<lambda>s. score s t) (filter (\<lambda>s. name s \<notin> claimed) srcs)")
    case None
    then show ?thesis using Cons.IH[of claimed] by (auto simp: Let_def)
  next
    case (Some s)
    show ?thesis
      using Some Cons.IH[of claimed] Cons.IH[of "insert (name s) claimed"]
      by (auto simp: Let_def target_field_make_mapping)
  qed
qed

lemma generate_spec_targets:
  "distinct (map name tgts) \<Longrightarrow> distinct (map target_field (generate_spec score srcs claimed tgts))"
proof (induction tgts arbitrary: claimed)
  case Nil
  show ?case by simp
next
  case (Cons t tgts)
  then have d: "distinct (map name tgts)" and n: "name t \<notin> set (map name tgts)" by auto
  show ?case
  proof (cases "first_best (\<lambda>s. score s t) (filter (\<lambda>s. name s \<notin> claimed) srcs)")
    case None
    then show ?thesis using Cons.IH[OF d, of claimed] by (simp add: Let_def)
  next
    case (Some s)
    have "name t \<notin> set (map target_field (generate_spec score srcs (insert (name s) claimed) tgts))"
      using n generate_spec_targets_subset[of score srcs "insert (name s) claimed" tgts] by blast
    then show ?thesis
      using Some Cons.IH[OF d, of claimed] Cons.IH[OF d, of "insert (name s) claimed"]
      by (simp add: Let_def target_field_make_mapping)
  qed
qed

lemma generate_mappings_one_to_one:
  "distinct (map source_field (fst (generate_mappings score mc source target)))
   \<and> (distinct (map name (schema_fields target)) \<longrightarrow>
        distinct (map target_field (fst (generate_mappings score mc source target))))"
  using generate_spec_sources[of score "schema_fields source" "{}" "schema_fields target"]
    generate_spec_targets[of "schema_fields target" score "schema_fields source" "{}"]
  by (simp add: generate_mappings_eq_spec)

lemma distinct_map_added_field:
  "distinct (map fst d) \<Longrightarrow> distinct (map fst (map_added_field ex f tfs d))"
  by (induction tfs) (auto simp: Let_def distinct_update)

lemma distinct_apply_change:
  "distinct (map fst d) \<Longrightarrow> distinct (map fst (apply_change ex s t d c))"
  unfolding apply_change_def
  by (auto simp: distinct_map_added_field distinct_update distinct_delete split: option.splits)

lemma distinct_foldl_apply_change:
  "distinct (map fst d) \<Longrightarrow> distinct (map fst (foldl (apply_change ex s t) d cs))"
  by (induction cs arbitrary: d) (simp_all add: distinct_apply_change)

lemma distinct_mappings_dict_fold:
  "distinct (map fst d) \<Longrightarrow>
   distinct (map fst (foldl (\<lambda>d m. AList.update (source_field m) m d) d ms))"
  by (induction ms arbitrary: d) (simp_all add: distinct_update)

lemma keyed_values: "keyed d \<Longrightarrow> map source_field (map snd d) = map fst d"
  by (induction d) (auto simp: keyed_def)

lemma update_mappings_sources_distinct:
  "distinct (map source_field (fst (update_mappings mc cs s t)))"
proof -
  have "distinct (map fst (mappings_dict ex))" for ex
    unfolding mappings_dict_def by (rule distinct_mappings_dict_fold) simp
  then have "distinct (map fst (current_dict mc cs s t))"
    unfolding current_dict_def Let_def by (rule distinct_foldl_apply_change)
  moreover have "map source_field (map snd (current_dict mc cs s t))
                   = map fst (current_dict mc cs s t)"
    by (rule keyed_values[OF keyed_current_dict])
  moreover have "fst (update_mappings mc cs s t) = map snd (current_dict mc cs s t)"
    by (simp add: update_mappings_current_dict)
  ultimately show ?thesis by (simp only:)
qed

text \<open>
  C2.  The claim fails for a batch of two \<open>added\<close> changes.  The scan for an added field
  tests each target against \<open>existing_mappings\<close>, the list read from the cache before the
  loop, which the mappings created earlier in the same call never enter.  With an empty
  cache, the source fields \<open>name\<close> and \<open>na_me\<close> and the single target field \<open>name\<close>,
  both added fields are mapped to the same target.  The lemmas above give what does hold:
  \<open>generate_mappings\<close> never reuses a source field and, for distinct target names, never
  a target field; \<open>update_mappings\<close> never returns two mappings of one source field.
\<close>

theorem update_mappings_shared_target:
  "map name (schema_fields source_twins) = [''name'', ''na_me'']
   \<and> map name (schema_fields target_single) = [''name'']
   \<and> fst (update_mappings Map.empty
            [mk_change ''added'' ''name'', mk_change ''added'' ''na_me'']
            source_twins target_single)
     = [\<lparr>source_field = ''name'', target_field = ''name'', transformation = None,
          confidence = 1, mapping_type = DIRECT\<rparr>,
        \<lparr>source_field = ''na_me'', target_field = ''name'', transformation = None,
          confidence = 1, mapping_type = DIRECT\<rparr>]"
  by code_simp

end
